theory Spec2Isabelle
  imports Complex_Main
begin

section \<open>JavaScript idioms used by the components\<close>

text \<open>
  The components are TypeScript. Strings are modelled as \<open>string\<close> (lists of characters),
  which is exact for concatenation, emptiness and equality; the numbers that carry audio
  clock times and sample values are modelled as \<open>real\<close>, so rounding of doubles is not
  part of the model. A value that may be \<open>undefined\<close> is an \<open>option\<close>.
\<close>

definition truthy :: "string \<Rightarrow> bool" where
  \<comment> \<open>a string in a condition: the empty string is falsy\<close>
  "truthy s = (s \<noteq> [])"

definition truthy_opt :: "string option \<Rightarrow> bool" where
  \<comment> \<open>\<open>undefined\<close> and the empty string are falsy\<close>
  "truthy_opt v = (case v of None \<Rightarrow> False | Some s \<Rightarrow> truthy s)"

definition js_or :: "string \<Rightarrow> string \<Rightarrow> string" where
  \<comment> \<open>\<open>a || b\<close> on strings\<close>
  "js_or a b = (if truthy a then a else b)"

definition js_or_opt :: "string option \<Rightarrow> string \<Rightarrow> string" where
  \<comment> \<open>\<open>a || b\<close> where \<open>a\<close> may be \<open>undefined\<close>\<close>
  "js_or_opt a b = (case a of None \<Rightarrow> b | Some s \<Rightarrow> js_or s b)"

definition at_index :: "'a list \<Rightarrow> int \<Rightarrow> 'a option" where
  \<comment> \<open>\<open>xs[i]\<close>: \<open>undefined\<close> outside the array\<close>
  "at_index xs i = (if 0 \<le> i \<and> i < int (length xs) then Some (xs ! nat i) else None)"

definition js_slice :: "'a list \<Rightarrow> int \<Rightarrow> int \<Rightarrow> 'a list" where
  \<comment> \<open>\<open>xs.slice(start, fin)\<close>: a negative index counts from the end, both are clamped\<close>
  "js_slice xs start fin =
     (let n = int (length xs);
          s = (if start < 0 then max (n + start) 0 else min start n);
          e = (if fin < 0 then max (n + fin) 0 else min fin n)
      in take (nat (e - s)) (drop (nat s) xs))"

section \<open>Data model of the live interview component\<close>

datatype speaker = user | ai

record chatMsg =
  role :: speaker
  text' :: string

record args =
  arg_title :: "string option"
  arg_description :: "string option"

record functionCall =
  call_id :: "string option"
  name :: "string option"
  call_args :: args

text \<open>
  A \<open>LiveServerMessage\<close>, reduced to the parts the handler reads: \<open>toolCall\<close> is
  \<open>message.toolCall.functionCalls\<close> (\<open>None\<close> when either is missing),
  the two transcriptions are \<open>serverContent.outputTranscription.text\<close> and
  \<open>serverContent.inputTranscription.text\<close>, \<open>inlineData\<close> is the base64 data of
  \<open>serverContent.modelTurn.parts[0].inlineData\<close>, and \<open>interrupted\<close> is the truth value of
  \<open>serverContent.interrupted\<close>.
\<close>

record message =
  toolCall :: "functionCall list option"
  outputTranscription :: "string option"
  inputTranscription :: "string option"
  inlineData :: "string option"
  interrupted :: bool

record task =
  title :: string
  description :: string

datatype tab = TabVideo | TabCode

datatype panel = PanelTask | PanelConsole | PanelVideo

datatype playState = Scheduled | Stopped | Ended

text \<open>
  An \<open>AudioBufferSourceNode\<close> after \<open>source.start(startTime)\<close>: the time given to
  \<open>start\<close>, the duration of its buffer, and whether it is still scheduled or playing,
  was stopped by \<open>source.stop()\<close>, or has played to its end.
\<close>

record bufferSource =
  startAt :: real
  duration :: real
  status :: playState

datatype promise = Pending | Fulfilled | Rejected

text \<open>What the component hands to the session object.\<close>

datatype outbound =
    RealtimeInput string string
  | ToolResponse "string option" "string option" string
  | SessionClose

text \<open>
  The functions the component passes to \<open>then\<close> on the session promise. The component with
  the task tool guards its media sends with \<open>isConnectedRef.current\<close> inside the
  continuation; the plain component calls \<open>session.sendRealtimeInput\<close> unguarded.
\<close>

datatype callback =
    SendIfConnected string string
  | SendAlways string string
  | SendToolResponse "string option" "string option" string
  | CloseSession

text \<open>
  The mutable cells of one mounted component. \<open>nodes\<close> lists every source node created,
  in creation order; a node is identified by its position, and \<open>sourcesRef\<close> is the set of
  tracked nodes. \<open>outbox\<close> lists the calls made on the session object, in order.
  \<open>callbacks\<close> are the continuations waiting for the session promise.
\<close>

record state =
  isMounted :: bool
  isConnectedRef :: bool
  isMicOnRef :: bool
  volume :: real
  chatHistory :: "chatMsg list"
  transcriptRef :: string
  nextStartTimeRef :: real
  audioContextRef :: bool
  nodes :: "bufferSource list"
  sourcesRef :: "nat set"
  currentTask :: "task option"
  activeTab :: tab
  rightPanelTab :: panel
  sessionPromise :: promise
  sessionPromiseRef :: bool
  callbacks :: "callback list"
  outbox :: "outbound list"
  videoIntervalOn :: bool
  processorConnected :: bool
  contextsClosed :: bool
  tracksStopped :: bool

text \<open>
  The state once \<open>initializeSession\<close> has created the audio contexts, obtained the media
  stream, called \<open>ai.live.connect\<close> and installed the audio and video producers.
\<close>

definition initial :: state where
  "initial = \<lparr>isMounted = True, isConnectedRef = False, isMicOnRef = True, volume = 0,
     chatHistory = [], transcriptRef = [], nextStartTimeRef = 0, audioContextRef = True,
     nodes = [], sourcesRef = {}, currentTask = None, activeTab = TabVideo,
     rightPanelTab = PanelVideo, sessionPromise = Pending, sessionPromiseRef = True,
     callbacks = [], outbox = [], videoIntervalOn = True, processorConnected = True,
     contextsClosed = False, tracksStopped = False\<rparr>"

section \<open>The session promise\<close>

fun runCallback :: "callback \<Rightarrow> state \<Rightarrow> state" where
  "runCallback (SendIfConnected mimeType d) st =
     (if isConnectedRef st then st\<lparr>outbox := outbox st @ [RealtimeInput mimeType d]\<rparr> else st)"
| "runCallback (SendAlways mimeType d) st = st\<lparr>outbox := outbox st @ [RealtimeInput mimeType d]\<rparr>"
| "runCallback (SendToolResponse i n r) st = st\<lparr>outbox := outbox st @ [ToolResponse i n r]\<rparr>"
| "runCallback CloseSession st = st\<lparr>outbox := outbox st @ [SessionClose]\<rparr>"

text \<open>
  \<open>sessionPromise.then(k)\<close>: on a pending promise the continuation waits; on a fulfilled one
  it runs in the microtask that follows the current handler, before any other handler, and
  no handler changes what its continuation reads after attaching it, so it is run where it
  is attached; on a rejected promise it never runs.
\<close>

definition thenSession :: "callback \<Rightarrow> state \<Rightarrow> state" where
  "thenSession k st =
     (case sessionPromise st of
        Pending \<Rightarrow> st\<lparr>callbacks := callbacks st @ [k]\<rparr>
      | Fulfilled \<Rightarrow> runCallback k st
      | Rejected \<Rightarrow> st)"

definition runCallbacks :: "callback list \<Rightarrow> state \<Rightarrow> state" where
  "runCallbacks ks st = foldl (\<lambda>s k. runCallback k s) st ks"

definition sessionResolved :: "state \<Rightarrow> state" where
  \<comment> \<open>the connection is established: the waiting continuations run in the order attached\<close>
  "sessionResolved st =
     (if sessionPromise st = Pending
      then runCallbacks (callbacks st) (st\<lparr>sessionPromise := Fulfilled, callbacks := []\<rparr>)
      else st)"

definition sessionRejected :: "state \<Rightarrow> state" where
  \<comment> \<open>\<open>sessionPromise.catch\<close> of the component with the task tool\<close>
  "sessionRejected st =
     (if sessionPromise st = Pending
      then st\<lparr>sessionPromise := Rejected, callbacks := [], isConnectedRef := False\<rparr>
      else st)"

section \<open>The inbound message handler\<close>

subsection \<open>Transcription\<close>

definition appendChat :: "speaker \<Rightarrow> string \<Rightarrow> chatMsg list \<Rightarrow> chatMsg list" where
  \<comment> \<open>the updater given to \<open>setChatHistory\<close>; the source has one copy for each role\<close>
  "appendChat r delta prev =
     (case at_index prev (int (length prev) - 1) of
        Some lastMsg \<Rightarrow>
          if role lastMsg = r
          then js_slice prev 0 (- 1) @ [lastMsg\<lparr>text' := text' lastMsg @ delta\<rparr>]
          else prev @ [\<lparr>role = r, text' = delta\<rparr>]
      | None \<Rightarrow> prev @ [\<lparr>role = r, text' = delta\<rparr>])"

definition handleText :: "speaker \<Rightarrow> string option \<Rightarrow> state \<Rightarrow> state" where
  "handleText r t st =
     (case t of
        None \<Rightarrow> st
      | Some delta \<Rightarrow>
          if truthy delta
          then st\<lparr>transcriptRef := transcriptRef st @ delta,
                  chatHistory := appendChat r delta (chatHistory st)\<rparr>
          else st)"

definition handleTranscription :: "message \<Rightarrow> state \<Rightarrow> state" where
  "handleTranscription m st =
     handleText user (inputTranscription m) (handleText ai (outputTranscription m) st)"

subsection \<open>Audio output\<close>

text \<open>
  \<open>decodeAudioData\<close> stands for \<open>decodeAudioData(base64ToUint8Array(data), ctx)\<close> of
  \<open>utils/audioUtils\<close>, which is not among the sources: it gives the duration of the decoded
  buffer, or \<open>None\<close> when the awaited promise rejects. A rejection ends the handler with the
  state as it is. \<open>now\<close> is \<open>audioContextRef.current.currentTime\<close> as the handler reads it.
  The handler is taken to run to its end before the next one starts: what follows the
  \<open>await\<close> (reading the clock, starting the node, advancing \<open>nextStartTimeRef\<close>, the
  interruption branch) is one synchronous stretch of the source.
\<close>

datatype outcome = Resolved state | Threw state

fun state_of :: "outcome \<Rightarrow> state" where
  "state_of (Resolved st) = st"
| "state_of (Threw st) = st"

definition schedule :: "real \<Rightarrow> real \<Rightarrow> state \<Rightarrow> state" where
  "schedule now dur st =
     (let currentTime = now;
          startTime = max currentTime (nextStartTimeRef st)
      in st\<lparr>nodes := nodes st @ [\<lparr>startAt = startTime, duration = dur, status = Scheduled\<rparr>],
            nextStartTimeRef := startTime + dur,
            sourcesRef := insert (length (nodes st)) (sourcesRef st)\<rparr>)"

definition handleAudio :: "(string \<Rightarrow> real option) \<Rightarrow> real \<Rightarrow> message \<Rightarrow> state \<Rightarrow> outcome" where
  "handleAudio decodeAudioData now m st =
     (case inlineData m of
        None \<Rightarrow> Resolved st
      | Some base64Audio \<Rightarrow>
          if audioContextRef st
          then (case decodeAudioData base64Audio of
                  None \<Rightarrow> Threw st
                | Some dur \<Rightarrow> Resolved (schedule now dur st))
          else Resolved st)"

definition onended :: "nat \<Rightarrow> state \<Rightarrow> state" where
  \<comment> \<open>\<open>source.onended\<close> of node \<open>i\<close>: the node has finished or was stopped\<close>
  "onended i st =
     st\<lparr>nodes := (if i < length (nodes st) \<and> status (nodes st ! i) = Scheduled
                  then (nodes st)[i := (nodes st ! i)\<lparr>status := Ended\<rparr>] else nodes st),
        sourcesRef := sourcesRef st - {i}\<rparr>"

subsection \<open>Interruption\<close>

definition stopNode :: "bufferSource \<Rightarrow> bufferSource" where
  \<comment> \<open>\<open>try { source.stop(); } catch(e) {}\<close>\<close>
  "stopNode n = (if status n = Scheduled then n\<lparr>status := Stopped\<rparr> else n)"

definition stopAll :: "nat set \<Rightarrow> bufferSource list \<Rightarrow> bufferSource list" where
  \<comment> \<open>\<open>sourcesRef.current.forEach(source => source.stop())\<close>\<close>
  "stopAll S ns = map (\<lambda>(i, n). if i \<in> S then stopNode n else n) (enumerate 0 ns)"

definition handleInterruption :: "real \<Rightarrow> message \<Rightarrow> state \<Rightarrow> state" where
  "handleInterruption now m st =
     (if interrupted m
      then st\<lparr>transcriptRef := transcriptRef st @ [CHR 0x0A] @ ''[Interruption]'' @ [CHR 0x0A],
              nodes := stopAll (sourcesRef st) (nodes st),
              sourcesRef := {},
              nextStartTimeRef := (if audioContextRef st then now else 0)\<rparr>
      else st)"

subsection \<open>Tool calls\<close>

definition handleToolCall :: "message \<Rightarrow> state \<Rightarrow> state" where
  "handleToolCall m st =
     (case toolCall m of
        None \<Rightarrow> st
      | Some calls \<Rightarrow>
          (case calls of
             [] \<Rightarrow> st
           | call # _ \<Rightarrow>
               if name call = Some ''assignCodingTask''
               then let st1 = st\<lparr>currentTask :=
                                    Some \<lparr>title = js_or_opt (arg_title (call_args call)) ''Coding Task'',
                                          description = js_or_opt (arg_description (call_args call))
                                                          ''Solve the problem.''\<rparr>,
                                  activeTab := TabCode,
                                  rightPanelTab := PanelTask\<rparr>
                    in if isConnectedRef st1 \<and> sessionPromiseRef st1
                       then thenSession (SendToolResponse (call_id call) (name call)
                              ''Task assigned and displayed to candidate.'') st1
                       else st1
               else st))"

subsection \<open>The two handlers\<close>

definition afterText :: "(string \<Rightarrow> real option) \<Rightarrow> real \<Rightarrow> message \<Rightarrow> state \<Rightarrow> outcome" where
  \<comment> \<open>the part of the handler that the two components share word for word\<close>
  "afterText decodeAudioData now m st =
     (case handleAudio decodeAudioData now m (handleTranscription m st) of
        Threw st' \<Rightarrow> Threw st'
      | Resolved st' \<Rightarrow> Resolved (handleInterruption now m st'))"

definition onmessage :: "(string \<Rightarrow> real option) \<Rightarrow> real \<Rightarrow> message \<Rightarrow> state \<Rightarrow> outcome" where
  \<comment> \<open>the component with the task tool\<close>
  "onmessage decodeAudioData now m st =
     (if \<not> isMounted st then Resolved st
      else afterText decodeAudioData now m (handleToolCall m st))"

definition onmessage_plain :: "(string \<Rightarrow> real option) \<Rightarrow> real \<Rightarrow> message \<Rightarrow> state \<Rightarrow> outcome" where
  \<comment> \<open>\<open>components/LiveInterview.tsx\<close>\<close>
  "onmessage_plain decodeAudioData now m st =
     (if \<not> isMounted st then Resolved st
      else afterText decodeAudioData now m st)"

fun run :: "(real \<Rightarrow> message \<Rightarrow> state \<Rightarrow> outcome) \<Rightarrow> (real \<times> message) list \<Rightarrow> state \<Rightarrow> state" where
  "run h [] st = st"
| "run h ((now, m) # ms) st = run h ms (state_of (h now m st))"

section \<open>The outbound producers\<close>

definition rms :: "real list \<Rightarrow> real" where
  \<comment> \<open>\<open>Math.sqrt(sum / inputData.length)\<close>; the processor's buffers hold 4096 samples\<close>
  "rms inputData = sqrt (sum_list (map (\<lambda>x. x * x) inputData) / real (length inputData))"

text \<open>
  \<open>encodeAudio\<close> stands for \<open>arrayBufferToBase64\<close> of the bytes of \<open>float32ToInt16(inputData)\<close>,
  both of \<open>utils/audioUtils\<close>.
\<close>

definition onaudioprocess :: "(real list \<Rightarrow> string) \<Rightarrow> real list \<Rightarrow> state \<Rightarrow> state" where
  \<comment> \<open>the component with the task tool\<close>
  "onaudioprocess encodeAudio inputData st =
     (if \<not> isMicOnRef st \<or> \<not> isConnectedRef st then st
      else let st1 = (if isMounted st then st\<lparr>volume := rms inputData\<rparr> else st)
           in thenSession (SendIfConnected ''audio/pcm;rate=16000'' (encodeAudio inputData)) st1)"

definition onaudioprocess_plain :: "(real list \<Rightarrow> string) \<Rightarrow> real list \<Rightarrow> state \<Rightarrow> state" where
  \<comment> \<open>\<open>components/LiveInterview.tsx\<close>\<close>
  "onaudioprocess_plain encodeAudio inputData st =
     (if \<not> isMicOnRef st then st
      else let st1 = (if isMounted st then st\<lparr>volume := rms inputData\<rparr> else st)
           in if sessionPromiseRef st1
              then thenSession (SendAlways ''audio/pcm;rate=16000'' (encodeAudio inputData)) st1
              else st1)"

text \<open>
  One tick of the video timer: whether the video and canvas elements and the 2d context
  exist, and the JPEG the canvas gives after drawing.
\<close>

record capture =
  videoEl :: bool
  canvasEl :: bool
  ctx2d :: bool
  base64Image :: string

definition videoInterval :: "capture \<Rightarrow> state \<Rightarrow> state" where
  \<comment> \<open>the component with the task tool\<close>
  "videoInterval c st =
     (if \<not> videoEl c \<or> \<not> canvasEl c \<or> \<not> isConnectedRef st then st
      else if \<not> ctx2d c then st
      else thenSession (SendIfConnected ''image/jpeg'' (base64Image c)) st)"

definition videoInterval_plain :: "capture \<Rightarrow> state \<Rightarrow> state" where
  \<comment> \<open>\<open>components/LiveInterview.tsx\<close>\<close>
  "videoInterval_plain c st =
     (if \<not> videoEl c \<or> \<not> canvasEl c then st
      else if \<not> ctx2d c then st
      else if sessionPromiseRef st
           then thenSession (SendAlways ''image/jpeg'' (base64Image c)) st
           else st)"

section \<open>Toggles, teardown and the end of the call\<close>

definition setIsMicOn :: "bool \<Rightarrow> state \<Rightarrow> state" where
  \<comment> \<open>\<open>setIsMicOn\<close> followed by the effect that copies the flag into \<open>isMicOnRef\<close>\<close>
  "setIsMicOn b st = st\<lparr>isMicOnRef := b\<rparr>"

definition onopen :: "state \<Rightarrow> state" where
  "onopen st = st\<lparr>isConnectedRef := True\<rparr>"

definition onclose :: "state \<Rightarrow> state" where
  "onclose st = st\<lparr>isConnectedRef := False\<rparr>"

definition onerror :: "state \<Rightarrow> state" where
  "onerror st = st\<lparr>isConnectedRef := False\<rparr>"

definition cleanup :: "state \<Rightarrow> state" where
  \<comment> \<open>the effect's teardown in the component with the task tool\<close>
  "cleanup st =
     (let st1 = st\<lparr>isMounted := False, isConnectedRef := False, videoIntervalOn := False\<rparr>;
          st2 = thenSession CloseSession (st1\<lparr>isConnectedRef := False\<rparr>)
      in st2\<lparr>processorConnected := False, contextsClosed := True, tracksStopped := True\<rparr>)"

definition cleanup_plain :: "state \<Rightarrow> state" where
  \<comment> \<open>the effect's teardown in \<open>components/LiveInterview.tsx\<close>\<close>
  "cleanup_plain st =
     (let st1 = st\<lparr>isMounted := False, videoIntervalOn := False, processorConnected := False,
                   contextsClosed := True, tracksStopped := True\<rparr>
      in if sessionPromiseRef st1 then thenSession CloseSession st1 else st1)"

definition handleEndCall :: "state \<Rightarrow> string" where
  \<comment> \<open>the argument that \<open>onEndInterview\<close> receives\<close>
  "handleEndCall st = js_or (transcriptRef st) ''No transcript available.''"

section \<open>The specification's transcript accumulator\<close>

text \<open>
  The specification's \<open>append(role, textDelta)\<close>, written from its words: merge into the
  last entry if that entry has the same role, else open a new entry.
\<close>

fun spec_append :: "chatMsg list \<Rightarrow> speaker \<Rightarrow> string \<Rightarrow> chatMsg list" where
  "spec_append [] r d = [\<lparr>role = r, text' = d\<rparr>]"
| "spec_append [e] r d =
     (if role e = r then [\<lparr>role = r, text' = text' e @ d\<rparr>] else [e, \<lparr>role = r, text' = d\<rparr>])"
| "spec_append (e # es) r d = e # spec_append es r d"

fun spec_transcript :: "chatMsg list \<Rightarrow> (real \<times> speaker \<times> string) list \<Rightarrow> chatMsg list" where
  "spec_transcript h [] = h"
| "spec_transcript h ((now, r, d) # ds) = spec_transcript (spec_append h r d) ds"

text \<open>A message that carries one partial transcript of the given side and nothing else.\<close>

definition delta :: "speaker \<Rightarrow> string \<Rightarrow> message" where
  "delta r d = \<lparr>toolCall = None,
     outputTranscription = (if r = ai then Some d else None),
     inputTranscription = (if r = user then Some d else None),
     inlineData = None, interrupted = False\<rparr>"

fun deltas :: "(real \<times> speaker \<times> string) list \<Rightarrow> (real \<times> message) list" where
  "deltas [] = []"
| "deltas ((now, r, d) # ds) = (now, delta r d) # deltas ds"

text \<open>
  The order of a chat history is kept: every entry of \<open>old\<close> is still at its position in
  \<open>new\<close>, with its role, and its text has only grown at the end.
\<close>

definition extends :: "chatMsg list \<Rightarrow> chatMsg list \<Rightarrow> bool" where
  "extends old new =
     (length old \<le> length new \<and>
      (\<forall>i<length old. role (new ! i) = role (old ! i) \<and>
                       take (length (text' (old ! i))) (text' (new ! i)) = text' (old ! i)))"

section \<open>The specification's playback scheduler\<close>

text \<open>
  The specification's scheduler, written from its words: keep \<open>nextStartTime\<close>; on a
  decoded segment compute \<open>startAt = max(currentOutputClockTime, nextStartTime)\<close>, schedule
  the segment at \<open>startAt\<close> and advance \<open>nextStartTime = startAt + segment.duration\<close>.
  A segment is given by the clock reading at its arrival and its duration.
\<close>

fun spec_schedule :: "real \<Rightarrow> (real \<times> real) list \<Rightarrow> bufferSource list" where
  "spec_schedule nextStartTime [] = []"
| "spec_schedule nextStartTime ((currentTime, dur) # segs) =
     (let startTime = max currentTime nextStartTime
      in \<lparr>startAt = startTime, duration = dur, status = Scheduled\<rparr>
           # spec_schedule (startTime + dur) segs)"

text \<open>The nodes created between two states.\<close>

definition scheduledSince :: "state \<Rightarrow> state \<Rightarrow> bufferSource list" where
  "scheduledSince st st' = drop (length (nodes st)) (nodes st')"

text \<open>The value of \<open>nextStartTime\<close> after the segments.\<close>

fun spec_next :: "real \<Rightarrow> (real \<times> real) list \<Rightarrow> real" where
  "spec_next n [] = n"
| "spec_next n ((t, d) # segs) = spec_next (max t n + d) segs"

text \<open>
  A message that brings a segment: it is not an interruption, and its audio decodes to a
  buffer of duration \<open>d\<close>, which is not negative.
\<close>

definition decodedSegment :: "(string \<Rightarrow> real option) \<Rightarrow> real \<times> message \<Rightarrow> real \<Rightarrow> bool" where
  "decodedSegment dec nm d =
     (\<not> interrupted (snd nm) \<and> 0 \<le> d
      \<and> (case inlineData (snd nm) of None \<Rightarrow> False | Some b \<Rightarrow> dec b = Some d))"

definition audioMessage :: "string \<Rightarrow> message" where
  "audioMessage b = \<lparr>toolCall = None, outputTranscription = None, inputTranscription = None,
     inlineData = Some b, interrupted = False\<rparr>"

text \<open>
  Every node that is still scheduled or playing is in the tracked set, so that an
  interruption reaches it.
\<close>

definition tracked :: "state \<Rightarrow> bool" where
  "tracked st =
     list_all (\<lambda>(i, n). status n = Scheduled \<longrightarrow> i \<in> sourcesRef st) (enumerate 0 (nodes st))"

definition interruptedMessage :: message where
  "interruptedMessage = \<lparr>toolCall = None, outputTranscription = None, inputTranscription = None,
     inlineData = None, interrupted = True\<rparr>"

section \<open>Events of the component\<close>

text \<open>
  The events of the component with the task tool: the callbacks of the session, the
  settling of the session promise, the end of a source node, the two producers, the
  microphone toggle and the teardown of the effect.
\<close>

datatype event =
    Onopen
  | Onmessage real message
  | Onclose
  | Onerror
  | SessionResolved
  | SessionRejected
  | Onended nat
  | Onaudioprocess "real list"
  | VideoTick capture
  | SetIsMicOn bool
  | Cleanup

fun step :: "(string \<Rightarrow> real option) \<Rightarrow> (real list \<Rightarrow> string) \<Rightarrow> event \<Rightarrow> state \<Rightarrow> state" where
  "step dec enc Onopen st = onopen st"
| "step dec enc (Onmessage now m) st = state_of (onmessage dec now m st)"
| "step dec enc Onclose st = onclose st"
| "step dec enc Onerror st = onerror st"
| "step dec enc SessionResolved st = sessionResolved st"
| "step dec enc SessionRejected st = sessionRejected st"
| "step dec enc (Onended i) st = onended i st"
| "step dec enc (Onaudioprocess inputData) st = onaudioprocess enc inputData st"
| "step dec enc (VideoTick c) st = videoInterval c st"
| "step dec enc (SetIsMicOn b) st = setIsMicOn b st"
| "step dec enc Cleanup st = cleanup st"

fun steps :: "(string \<Rightarrow> real option) \<Rightarrow> (real list \<Rightarrow> string) \<Rightarrow> event list \<Rightarrow> state \<Rightarrow> state" where
  "steps dec enc [] st = st"
| "steps dec enc (ev # evs) st = steps dec enc evs (step dec enc ev st)"

text \<open>The events that reach \<open>setCurrentTask\<close>: a message whose first call names the tool.\<close>

fun assignsTask :: "event \<Rightarrow> bool" where
  "assignsTask (Onmessage now m) =
     (case toolCall m of
        None \<Rightarrow> False
      | Some calls \<Rightarrow> (case calls of [] \<Rightarrow> False | call # rest \<Rightarrow> name call = Some ''assignCodingTask''))"
| "assignsTask ev = False"

text \<open>
  Stand-ins for the functions of \<open>utils/audioUtils\<close>, to evaluate the handlers at concrete
  inputs: every chunk decodes to a buffer of the given duration, and a buffer of samples
  encodes to one character for each sample.
\<close>

definition constDecode :: "real \<Rightarrow> string \<Rightarrow> real option" where
  "constDecode d b = Some d"

definition lengthEncode :: "real list \<Rightarrow> string" where
  "lengthEncode inputData = replicate (length inputData) CHR ''A''"

text \<open>The state of a session that has opened: \<open>onopen\<close> has run and the promise is fulfilled.\<close>

definition live :: state where
  "live = sessionResolved (onopen initial)"

text \<open>A message that carries function calls and nothing else, and a call of the task tool.\<close>

definition toolMessage :: "functionCall list \<Rightarrow> message" where
  "toolMessage calls = \<lparr>toolCall = Some calls, outputTranscription = None, inputTranscription = None,
     inlineData = None, interrupted = False\<rparr>"

definition assignCall :: "string \<Rightarrow> string \<Rightarrow> string \<Rightarrow> functionCall" where
  "assignCall i t d = \<lparr>call_id = Some i, name = Some ''assignCodingTask'',
     call_args = \<lparr>arg_title = Some t, arg_description = Some d\<rparr>\<rparr>"

text \<open>
  An open session: the component is mounted, \<open>onopen\<close> has run and the session promise is
  fulfilled, and the channel has not been closed. Messages arrive on an open session
  only; it stays open under every event but \<open>onclose\<close>, \<open>onerror\<close> and the teardown.
\<close>

definition sessionOpen :: "state \<Rightarrow> bool" where
  "sessionOpen st =
     (isMounted st \<and> isConnectedRef st \<and> sessionPromiseRef st \<and> sessionPromise st = Fulfilled)"

fun closes :: "event \<Rightarrow> bool" where
  "closes Onclose = True"
| "closes Onerror = True"
| "closes Cleanup = True"
| "closes ev = False"

section \<open>The report generator\<close>

subsection \<open>Cleaning the response\<close>

text \<open>
  The whitespace class of the two regular expressions, on the characters a \<open>char\<close> can
  hold: tab, line feed, vertical tab, form feed, carriage return, space and no-break space.
\<close>

definition isSpace :: "char \<Rightarrow> bool" where
  "isSpace c = (c \<in> {CHR 0x09, CHR 0x0A, CHR 0x0B, CHR 0x0C, CHR 0x0D, CHR 0x20, CHR 0xA0})"

text \<open>
  The first \<open>replace\<close>, of the marker \<open>```json\<close> and any whitespace after it, by the empty
  string, everywhere: scanning from the left, every occurrence of the
  marker is deleted together with the whitespace that follows it, and the scan goes on
  after the deleted text.
\<close>

function stripJsonFence :: "string \<Rightarrow> string" where
  "stripJsonFence [] = []"
| "stripJsonFence (c # cs) =
     (if take 7 (c # cs) = ''```json'' then stripJsonFence (dropWhile isSpace (drop 7 (c # cs)))
      else c # stripJsonFence cs)"
  by pat_completeness auto
termination
proof (relation "measure length")
  show "wf (measure length)" by simp
next
  fix c :: char and cs :: string
  have "length (dropWhile isSpace (drop 7 (c # cs))) \<le> length (drop 7 (c # cs))"
    by (rule length_dropWhile_le)
  then show "(dropWhile isSpace (drop 7 (c # cs)), c # cs) \<in> measure length" by simp
next
  fix c :: char and cs :: string
  show "(cs, c # cs) \<in> measure length" by simp
qed

text \<open>
  The second \<open>replace\<close>, of three backticks and any whitespace at the end of the text: the
  leftmost three backticks that are followed by nothing but
  whitespace up to the end of the text are deleted with that whitespace.
\<close>

fun stripTrailingFence :: "string \<Rightarrow> string" where
  "stripTrailingFence [] = []"
| "stripTrailingFence (c # cs) =
     (if take 3 (c # cs) = ''```'' \<and> list_all isSpace (drop 3 (c # cs)) then []
      else c # stripTrailingFence cs)"

text \<open>\<open>indexOf\<close>, \<open>lastIndexOf\<close> (both give -1 when the character is absent) and \<open>substring\<close>
  (indices are clamped to the text and swapped when the first is the larger).\<close>

fun indexOf :: "string \<Rightarrow> char \<Rightarrow> int" where
  "indexOf [] c = - 1"
| "indexOf (x # xs) c =
     (if x = c then 0 else (let i = indexOf xs c in if i = - 1 then - 1 else i + 1))"

definition lastIndexOf :: "string \<Rightarrow> char \<Rightarrow> int" where
  "lastIndexOf s c =
     (let i = indexOf (rev s) c in if i = - 1 then - 1 else int (length s) - 1 - i)"

definition substring :: "string \<Rightarrow> int \<Rightarrow> int \<Rightarrow> string" where
  "substring s a b =
     (let n = int (length s);
          a' = max 0 (min a n);
          b' = max 0 (min b n);
          lo = min a' b';
          hi = max a' b'
      in take (nat (hi - lo)) (drop (nat lo) s))"

text \<open>The "robust cleaning" of \<open>generateReport\<close>: the text that is given to \<open>JSON.parse\<close>.\<close>

definition cleanJson :: "string \<Rightarrow> string" where
  "cleanJson jsonText =
     (let jsonText1 = stripTrailingFence (stripJsonFence jsonText);
          firstBrace = indexOf jsonText1 CHR ''{'';
          lastBrace = lastIndexOf jsonText1 CHR ''}''
      in if firstBrace \<noteq> - 1 \<and> lastBrace \<noteq> - 1
         then substring jsonText1 firstBrace (lastBrace + 1)
         else jsonText1)"


text \<open>
  The specification's extraction, written from its words: the outermost balanced object
  is the text from the first opening brace to the brace that closes it, counting braces.
  \<open>closing depth s\<close> is the number of characters of \<open>s\<close> up to and including that brace.
\<close>

fun closing :: "nat \<Rightarrow> string \<Rightarrow> nat option" where
  "closing depth [] = None"
| "closing depth (c # cs) =
     (if c = CHR ''{'' then map_option Suc (closing (Suc depth) cs)
      else if c = CHR ''}'' then (if depth \<le> 1 then Some 1 else map_option Suc (closing (depth - 1) cs))
      else map_option Suc (closing depth cs))"

definition spec_outermostObject :: "string \<Rightarrow> string option" where
  "spec_outermostObject s =
     (let t = dropWhile (\<lambda>c. c \<noteq> CHR ''{'') s
      in case closing 0 t of None \<Rightarrow> None | Some n \<Rightarrow> Some (take n t))"

subsection \<open>The application state\<close>

text \<open>
  A parsed JSON value; \<open>JSON.parse\<close> belongs to the runtime and is a parameter of the model
  (\<open>None\<close> when it throws). The candidate profile is only tested for presence, so its
  type is a parameter.
\<close>

datatype json = Null | Boolean bool | Number real | String string | Array "json list"
  | Object "(string \<times> json) list"

datatype appState = HOME | SETUP | INTERVIEW | ANALYZING | REPORT | ABOUT | CONTACT

record 'p app =
  appState :: appState
  profile :: "'p option"
  report :: "json option"
  generationError :: "string option"
  alerts :: "string list"

text \<open>
  The outcome of \<open>ai.models.generateContent\<close>: it rejects (with the message of the error
  when it is an \<open>Error\<close>), or it gives a response whose \<open>text\<close> may be \<open>undefined\<close>.
\<close>

datatype response = Failed "string option" | Text "string option"

definition missingKeyMessage :: string where
  "missingKeyMessage = ''API Key is missing. Please ensure 'API_KEY' is set in your .env file or deployment environment variables.''"

definition emptyResponseMessage :: string where
  "emptyResponseMessage = ''The AI model returned an empty response. This might be due to safety filters or connection issues.''"

definition parseFailedMessage :: string where
  "parseFailedMessage = ''Failed to parse the report data. The AI response was not valid JSON.''"

text \<open>
  The body of the \<open>try\<close> block of \<open>generateReport\<close> in the application with sign-in: the
  message of the error that reaches the \<open>catch\<close>, or the parsed report.
\<close>

definition evaluate :: "string \<Rightarrow> response \<Rightarrow> (string \<Rightarrow> json option) \<Rightarrow> string + json" where
  "evaluate apiKey response parse =
     (if \<not> truthy apiKey then Inl missingKeyMessage
      else case response of
             Failed e \<Rightarrow> Inl (case e of Some msg \<Rightarrow> msg | None \<Rightarrow> ''An unexpected error occurred.'')
           | Text t \<Rightarrow>
               (case t of
                  None \<Rightarrow> Inl emptyResponseMessage
                | Some jsonText \<Rightarrow>
                    if \<not> truthy jsonText then Inl emptyResponseMessage
                    else (case parse (cleanJson jsonText) of
                            None \<Rightarrow> Inl parseFailedMessage
                          | Some reportData \<Rightarrow> Inr reportData)))"

definition generateReport :: "string \<Rightarrow> response \<Rightarrow> (string \<Rightarrow> json option) \<Rightarrow> 'p app \<Rightarrow> 'p app" where
  "generateReport apiKey response parse st =
     (if profile st = None then st
      else let st1 = st\<lparr>appState := ANALYZING, generationError := None\<rparr>
           in case evaluate apiKey response parse of
                Inr reportData \<Rightarrow> st1\<lparr>report := Some reportData, appState := REPORT\<rparr>
              | Inl message \<Rightarrow> st1\<lparr>generationError := Some message\<rparr>)"

text \<open>
  \<open>generateReport\<close> of \<open>App.tsx\<close>: no cleaning, an empty response is replaced by \<open>"{}"\<close>,
  and every failure is answered by an alert and the setup step. \<open>alerts\<close> lists the
  messages given to \<open>alert\<close>.
\<close>

definition failedAlert :: string where
  "failedAlert = ''Failed to generate report. Please try again.''"

definition generateReport_plain :: "string \<Rightarrow> response \<Rightarrow> (string \<Rightarrow> json option) \<Rightarrow> 'p app \<Rightarrow> 'p app" where
  "generateReport_plain apiKey response parse st =
     (if profile st = None \<or> \<not> truthy apiKey then st
      else let st1 = st\<lparr>appState := ANALYZING\<rparr>
           in case response of
                Failed e \<Rightarrow> st1\<lparr>alerts := alerts st1 @ [failedAlert], appState := SETUP\<rparr>
              | Text t \<Rightarrow>
                  (case parse (case t of None \<Rightarrow> ''{}'' | Some s \<Rightarrow> if truthy s then s else ''{}'') of
                     None \<Rightarrow> st1\<lparr>alerts := alerts st1 @ [failedAlert], appState := SETUP\<rparr>
                   | Some reportData \<Rightarrow> st1\<lparr>report := Some reportData, appState := REPORT\<rparr>))"

text \<open>What the main area shows in the application with sign-in.\<close>

fun truthy_json :: "json \<Rightarrow> bool" where
  "truthy_json Null = False"
| "truthy_json (Boolean b) = b"
| "truthy_json (Number n) = (n \<noteq> 0)"
| "truthy_json (String s) = truthy s"
| "truthy_json (Array xs) = True"
| "truthy_json (Object kvs) = True"

datatype view = Page appState | Spinner | ErrorPanel string | ReportView json | Nothing

definition render :: "'p app \<Rightarrow> view" where
  "render st =
     (case appState st of
        ANALYZING \<Rightarrow>
          (case generationError st of
             None \<Rightarrow> Spinner
           | Some message \<Rightarrow> if truthy message then ErrorPanel message else Spinner)
      | REPORT \<Rightarrow>
          (case report st of
             None \<Rightarrow> Nothing
           | Some r \<Rightarrow> if truthy_json r then ReportView r else Nothing)
      | INTERVIEW \<Rightarrow> (if profile st = None then Nothing else Page INTERVIEW)
      | other \<Rightarrow> Page other)"

definition returnToSetup :: "'p app \<Rightarrow> 'p app" where
  \<comment> \<open>the handler of the button "Return to Setup"\<close>
  "returnToSetup st = st\<lparr>appState := SETUP\<rparr>"

definition clickReturnToSetup :: "'p app \<Rightarrow> 'p app option" where
  \<comment> \<open>the button exists only inside the error panel\<close>
  "clickReturnToSetup st =
     (case render st of ErrorPanel message \<Rightarrow> Some (returnToSetup st) | other \<Rightarrow> None)"

text \<open>
  The specification's recoverable error, for the application with sign-in: the state
  keeps everything but the step and the message, the error panel with the message is
  shown, and its button leads to the setup step.
\<close>

definition recoverableError :: "string \<Rightarrow> 'p app \<Rightarrow> 'p app \<Rightarrow> bool" where
  "recoverableError message st st' =
     (st' = st\<lparr>appState := ANALYZING, generationError := Some message\<rparr>
      \<and> render st' = ErrorPanel message
      \<and> (case clickReturnToSetup st' of
            None \<Rightarrow> False
          | Some st'' \<Rightarrow> st'' = st'\<lparr>appState := SETUP\<rparr> \<and> render st'' = Page SETUP))"

text \<open>
  Concrete inputs: the object \<open>{"score": 90}\<close>, a parser that accepts exactly one text, and
  the application at the end of an interview.
\<close>

definition sampleObject :: string where
  "sampleObject = ''{'' @ [CHR 0x22] @ ''score'' @ [CHR 0x22] @ '': 90}''"

definition parseExactly :: "string \<Rightarrow> json \<Rightarrow> string \<Rightarrow> json option" where
  "parseExactly obj v s = (if s = obj then Some v else None)"

definition interviewDone :: "unit app" where
  "interviewDone = \<lparr>appState = INTERVIEW, profile = Some (), report = None, generationError = None,
     alerts = []\<rparr>"

section \<open>Helper lemmas\<close>

lemma at_index_last:
  "at_index xs (int (length xs) - 1) = (if xs = [] then None else Some (last xs))"
  by (cases xs rule: rev_cases) (simp_all add: at_index_def nth_append)

lemma js_slice_butlast: "js_slice xs 0 (- 1) = butlast xs"
proof -
  have "nat (max (int (length xs) - 1) 0) = length xs - 1" by arith
  then show ?thesis by (simp add: js_slice_def Let_def butlast_conv_take)
qed

lemma appendChat_last:
  "appendChat r d prev =
     (if prev \<noteq> [] \<and> role (last prev) = r
      then butlast prev @ [(last prev)\<lparr>text' := text' (last prev) @ d\<rparr>]
      else prev @ [\<lparr>role = r, text' = d\<rparr>])"
  by (simp add: appendChat_def at_index_last js_slice_butlast)

lemma spec_append_last:
  "spec_append prev r d =
     (if prev \<noteq> [] \<and> role (last prev) = r
      then butlast prev @ [(last prev)\<lparr>text' := text' (last prev) @ d\<rparr>]
      else prev @ [\<lparr>role = r, text' = d\<rparr>])"
  by (induction prev r d rule: spec_append.induct) auto

lemma appendChat_spec: "appendChat r d prev = spec_append prev r d"
  by (simp only: appendChat_last spec_append_last)


lemma thenSession_frame [simp]:
  "isMounted (thenSession k st) = isMounted st"
  "isConnectedRef (thenSession k st) = isConnectedRef st"
  "isMicOnRef (thenSession k st) = isMicOnRef st"
  "volume (thenSession k st) = volume st"
  "chatHistory (thenSession k st) = chatHistory st"
  "transcriptRef (thenSession k st) = transcriptRef st"
  "nextStartTimeRef (thenSession k st) = nextStartTimeRef st"
  "audioContextRef (thenSession k st) = audioContextRef st"
  "nodes (thenSession k st) = nodes st"
  "sourcesRef (thenSession k st) = sourcesRef st"
  "currentTask (thenSession k st) = currentTask st"
  "sessionPromise (thenSession k st) = sessionPromise st"
  "sessionPromiseRef (thenSession k st) = sessionPromiseRef st"
  by (cases k; simp add: thenSession_def split: promise.splits)+

lemma handleToolCall_frame [simp]:
  "isMounted (handleToolCall m st) = isMounted st"
  "isConnectedRef (handleToolCall m st) = isConnectedRef st"
  "isMicOnRef (handleToolCall m st) = isMicOnRef st"
  "volume (handleToolCall m st) = volume st"
  "chatHistory (handleToolCall m st) = chatHistory st"
  "transcriptRef (handleToolCall m st) = transcriptRef st"
  "nextStartTimeRef (handleToolCall m st) = nextStartTimeRef st"
  "audioContextRef (handleToolCall m st) = audioContextRef st"
  "nodes (handleToolCall m st) = nodes st"
  "sourcesRef (handleToolCall m st) = sourcesRef st"
  "sessionPromise (handleToolCall m st) = sessionPromise st"
  "sessionPromiseRef (handleToolCall m st) = sessionPromiseRef st"
  by (simp add: handleToolCall_def Let_def split: option.splits list.splits)+

lemma handleText_frame [simp]:
  "isMounted (handleText r t st) = isMounted st"
  "isConnectedRef (handleText r t st) = isConnectedRef st"
  "isMicOnRef (handleText r t st) = isMicOnRef st"
  "volume (handleText r t st) = volume st"
  "nextStartTimeRef (handleText r t st) = nextStartTimeRef st"
  "audioContextRef (handleText r t st) = audioContextRef st"
  "nodes (handleText r t st) = nodes st"
  "sourcesRef (handleText r t st) = sourcesRef st"
  "currentTask (handleText r t st) = currentTask st"
  "sessionPromise (handleText r t st) = sessionPromise st"
  "sessionPromiseRef (handleText r t st) = sessionPromiseRef st"
  "callbacks (handleText r t st) = callbacks st"
  "outbox (handleText r t st) = outbox st"
  by (simp add: handleText_def split: option.splits)+

lemma handleTranscription_frame [simp]:
  "isMounted (handleTranscription m st) = isMounted st"
  "isConnectedRef (handleTranscription m st) = isConnectedRef st"
  "isMicOnRef (handleTranscription m st) = isMicOnRef st"
  "volume (handleTranscription m st) = volume st"
  "nextStartTimeRef (handleTranscription m st) = nextStartTimeRef st"
  "audioContextRef (handleTranscription m st) = audioContextRef st"
  "nodes (handleTranscription m st) = nodes st"
  "sourcesRef (handleTranscription m st) = sourcesRef st"
  "currentTask (handleTranscription m st) = currentTask st"
  "sessionPromise (handleTranscription m st) = sessionPromise st"
  "sessionPromiseRef (handleTranscription m st) = sessionPromiseRef st"
  "callbacks (handleTranscription m st) = callbacks st"
  "outbox (handleTranscription m st) = outbox st"
  by (simp_all add: handleTranscription_def)

lemma handleAudio_frame [simp]:
  "isMounted (state_of (handleAudio dec now m st)) = isMounted st"
  "isConnectedRef (state_of (handleAudio dec now m st)) = isConnectedRef st"
  "isMicOnRef (state_of (handleAudio dec now m st)) = isMicOnRef st"
  "volume (state_of (handleAudio dec now m st)) = volume st"
  "chatHistory (state_of (handleAudio dec now m st)) = chatHistory st"
  "transcriptRef (state_of (handleAudio dec now m st)) = transcriptRef st"
  "audioContextRef (state_of (handleAudio dec now m st)) = audioContextRef st"
  "currentTask (state_of (handleAudio dec now m st)) = currentTask st"
  "sessionPromise (state_of (handleAudio dec now m st)) = sessionPromise st"
  "sessionPromiseRef (state_of (handleAudio dec now m st)) = sessionPromiseRef st"
  "callbacks (state_of (handleAudio dec now m st)) = callbacks st"
  "outbox (state_of (handleAudio dec now m st)) = outbox st"
  by (simp add: handleAudio_def schedule_def Let_def split: option.splits)+

lemma handleInterruption_frame [simp]:
  "isMounted (handleInterruption now m st) = isMounted st"
  "isConnectedRef (handleInterruption now m st) = isConnectedRef st"
  "isMicOnRef (handleInterruption now m st) = isMicOnRef st"
  "volume (handleInterruption now m st) = volume st"
  "chatHistory (handleInterruption now m st) = chatHistory st"
  "audioContextRef (handleInterruption now m st) = audioContextRef st"
  "currentTask (handleInterruption now m st) = currentTask st"
  "sessionPromise (handleInterruption now m st) = sessionPromise st"
  "sessionPromiseRef (handleInterruption now m st) = sessionPromiseRef st"
  "callbacks (handleInterruption now m st) = callbacks st"
  "outbox (handleInterruption now m st) = outbox st"
  by (simp_all add: handleInterruption_def)

lemma state_of_afterText:
  "state_of (afterText dec now m st) =
     (case handleAudio dec now m (handleTranscription m st) of
        Threw st' \<Rightarrow> st'
      | Resolved st' \<Rightarrow> handleInterruption now m st')"
  by (simp add: afterText_def split: outcome.splits)

lemma afterText_frame [simp]:
  "isMounted (state_of (afterText dec now m st)) = isMounted st"
  "isConnectedRef (state_of (afterText dec now m st)) = isConnectedRef st"
  "isMicOnRef (state_of (afterText dec now m st)) = isMicOnRef st"
  "volume (state_of (afterText dec now m st)) = volume st"
  "audioContextRef (state_of (afterText dec now m st)) = audioContextRef st"
  "currentTask (state_of (afterText dec now m st)) = currentTask st"
  "sessionPromise (state_of (afterText dec now m st)) = sessionPromise st"
  "sessionPromiseRef (state_of (afterText dec now m st)) = sessionPromiseRef st"
  "callbacks (state_of (afterText dec now m st)) = callbacks st"
  "outbox (state_of (afterText dec now m st)) = outbox st"
  "chatHistory (state_of (afterText dec now m st)) = chatHistory (handleTranscription m st)"
proof -
  let ?a = "handleAudio dec now m (handleTranscription m st)"
  have eq: "state_of (afterText dec now m st) = state_of ?a
            \<or> state_of (afterText dec now m st) = handleInterruption now m (state_of ?a)"
    by (cases ?a) (simp_all add: afterText_def)
  show "isMounted (state_of (afterText dec now m st)) = isMounted st" using eq by auto
  show "isConnectedRef (state_of (afterText dec now m st)) = isConnectedRef st" using eq by auto
  show "isMicOnRef (state_of (afterText dec now m st)) = isMicOnRef st" using eq by auto
  show "volume (state_of (afterText dec now m st)) = volume st" using eq by auto
  show "audioContextRef (state_of (afterText dec now m st)) = audioContextRef st" using eq by auto
  show "currentTask (state_of (afterText dec now m st)) = currentTask st" using eq by auto
  show "sessionPromise (state_of (afterText dec now m st)) = sessionPromise st" using eq by auto
  show "sessionPromiseRef (state_of (afterText dec now m st)) = sessionPromiseRef st" using eq by auto
  show "callbacks (state_of (afterText dec now m st)) = callbacks st" using eq by auto
  show "outbox (state_of (afterText dec now m st)) = outbox st" using eq by auto
  show "chatHistory (state_of (afterText dec now m st)) = chatHistory (handleTranscription m st)"
    using eq by auto
qed

lemma extends_refl: "extends h h"
  by (simp add: extends_def)

lemma extends_trans: "extends a b \<Longrightarrow> extends b c \<Longrightarrow> extends a c"
  unfolding extends_def
proof (intro conjI allI impI)
  assume a: "length a \<le> length b \<and> (\<forall>i<length a. role (b ! i) = role (a ! i) \<and>
                       take (length (text' (a ! i))) (text' (b ! i)) = text' (a ! i))"
    and b: "length b \<le> length c \<and> (\<forall>i<length b. role (c ! i) = role (b ! i) \<and>
                       take (length (text' (b ! i))) (text' (c ! i)) = text' (b ! i))"
  show "length a \<le> length c" using a b by simp
  fix i assume i: "i < length a"
  then have ib: "i < length b" using a by simp
  show "role (c ! i) = role (a ! i)" using a b i ib by simp
  have 1: "take (length (text' (a ! i))) (text' (b ! i)) = text' (a ! i)" using a i by simp
  have 2: "take (length (text' (b ! i))) (text' (c ! i)) = text' (b ! i)" using b ib by simp
  have "length (take (length (text' (a ! i))) (text' (b ! i))) = length (text' (a ! i))"
    using 1 by simp
  then have "length (text' (a ! i)) \<le> length (text' (b ! i))"
    by simp
  then have "take (length (text' (a ! i))) (text' (c ! i)) =
        take (length (text' (a ! i))) (take (length (text' (b ! i))) (text' (c ! i)))"
    by (simp add: min_def)
  then show "take (length (text' (a ! i))) (text' (c ! i)) = text' (a ! i)"
    using 1 2 by simp
qed

lemma extends_appendChat: "extends prev (appendChat r d prev)"
proof (cases "prev \<noteq> [] \<and> role (last prev) = r")
  case True
  then obtain ys y where p: "prev = ys @ [y]" and ry: "role y = r"
    by (metis append_butlast_last_id)
  show ?thesis
    by (auto simp: appendChat_last p ry extends_def nth_append)
next
  case False
  then show ?thesis
    by (auto simp: appendChat_last extends_def nth_append)
qed

lemma extends_handleTranscription: "extends (chatHistory st) (chatHistory (handleTranscription m st))"
proof -
  have t: "extends (chatHistory s) (chatHistory (handleText r t s))" for r t s
    by (auto simp: handleText_def extends_refl extends_appendChat split: option.splits)
  show ?thesis
    unfolding handleTranscription_def
    by (rule extends_trans [OF t t])
qed

lemma handler_cases:
  assumes "h = onmessage dec \<or> h = onmessage_plain dec"
  shows "state_of (h now m st) =
           (if \<not> isMounted st then st
            else if h = onmessage dec then state_of (afterText dec now m (handleToolCall m st))
            else state_of (afterText dec now m st))"
  using assms by (cases "isMounted st") (auto simp: onmessage_def onmessage_plain_def)

lemma chatHistory_handleText:
  "chatHistory (handleText r t st) =
     (case t of None \<Rightarrow> chatHistory st
      | Some d \<Rightarrow> if truthy d then appendChat r d (chatHistory st) else chatHistory st)"
  by (simp add: handleText_def split: option.splits)

lemma chatHistory_handleTranscription_cong:
  "chatHistory st = chatHistory st' \<Longrightarrow>
   chatHistory (handleTranscription m st) = chatHistory (handleTranscription m st')"
  by (simp add: handleTranscription_def chatHistory_handleText split: option.splits)

lemma handler_chatHistory:
  assumes "h = onmessage dec \<or> h = onmessage_plain dec"
  shows "chatHistory (state_of (h now m st)) =
           (if isMounted st then chatHistory (handleTranscription m st) else chatHistory st)"
  using assms
  by (cases "isMounted st")
     (auto simp: onmessage_def onmessage_plain_def intro!: chatHistory_handleTranscription_cong)

lemma handler_isMounted:
  assumes "h = onmessage dec \<or> h = onmessage_plain dec"
  shows "isMounted (state_of (h now m st)) = isMounted st"
  using assms by (cases "isMounted st") (auto simp: onmessage_def onmessage_plain_def)

lemma extends_handler:
  assumes "h = onmessage dec \<or> h = onmessage_plain dec"
  shows "extends (chatHistory st) (chatHistory (state_of (h now m st)))"
  by (simp add: handler_chatHistory [OF assms] extends_refl extends_handleTranscription)

lemma extends_run:
  assumes "h = onmessage dec \<or> h = onmessage_plain dec"
  shows "extends (chatHistory st) (chatHistory (run h ms st))"
proof (induction ms arbitrary: st)
  case Nil
  show ?case by (simp add: extends_refl)
next
  case (Cons a ms)
  obtain now m where a: "a = (now, m)" by (cases a)
  show ?case
    unfolding a run.simps
    by (rule extends_trans [OF extends_handler [OF assms] Cons.IH])
qed

lemma chatHistory_delta:
  assumes "d \<noteq> []"
  shows "chatHistory (handleTranscription (delta r d) st) = spec_append (chatHistory st) r d"
  using assms
  by (cases r) (simp_all add: handleTranscription_def handleText_def delta_def truthy_def appendChat_spec)

lemma run_deltas:
  assumes h: "h = onmessage dec \<or> h = onmessage_plain dec"
  shows "isMounted st \<Longrightarrow> \<forall>(now, r, d) \<in> set ds. d \<noteq> [] \<Longrightarrow>
         chatHistory (run h (deltas ds) st) = spec_transcript (chatHistory st) ds"
proof (induction ds arbitrary: st)
  case Nil
  show ?case by simp
next
  case (Cons a ds)
  obtain now r d where a: "a = (now, r, d)" by (cases a)
  have d: "d \<noteq> []" using Cons.prems(2) a by simp
  let ?st = "state_of (h now (delta r d) st)"
  have m: "isMounted ?st" using Cons.prems(1) by (simp add: handler_isMounted [OF h])
  have c: "chatHistory ?st = spec_append (chatHistory st) r d"
    using Cons.prems(1) by (simp add: handler_chatHistory [OF h] chatHistory_delta [OF d])
  have "chatHistory (run h (deltas ds) ?st) = spec_transcript (chatHistory ?st) ds"
    using Cons.IH [OF m] Cons.prems(2) by simp
  then show ?case by (simp add: a c)
qed

subsection \<open>Playback\<close>

lemma schedule_fields [simp]:
  "nodes (schedule now dur st) =
     nodes st @ [\<lparr>startAt = max now (nextStartTimeRef st), duration = dur, status = Scheduled\<rparr>]"
  "nextStartTimeRef (schedule now dur st) = max now (nextStartTimeRef st) + dur"
  "sourcesRef (schedule now dur st) = insert (length (nodes st)) (sourcesRef st)"
  "isMounted (schedule now dur st) = isMounted st"
  "audioContextRef (schedule now dur st) = audioContextRef st"
  by (simp_all add: schedule_def Let_def)

lemma afterText_audio:
  assumes "audioContextRef st" "\<not> interrupted m" "inlineData m = Some b" "dec b = Some d"
  shows "state_of (afterText dec now m st) = schedule now d (handleTranscription m st)"
  using assms by (simp add: afterText_def handleAudio_def handleInterruption_def)

lemma handler_audio_step:
  assumes h: "h = onmessage dec \<or> h = onmessage_plain dec"
    and "isMounted st" "audioContextRef st" "\<not> interrupted m" "inlineData m = Some b" "dec b = Some d"
  shows "nodes (state_of (h now m st)) =
           nodes st @ [\<lparr>startAt = max now (nextStartTimeRef st), duration = d, status = Scheduled\<rparr>]"
    and "nextStartTimeRef (state_of (h now m st)) = max now (nextStartTimeRef st) + d"
    and "isMounted (state_of (h now m st))"
    and "audioContextRef (state_of (h now m st))"
proof -
  let ?s = "if h = onmessage dec then handleToolCall m st else st"
  have a: "audioContextRef ?s" using assms(3) by simp
  have e: "state_of (h now m st) = schedule now d (handleTranscription m ?s)"
    using h assms(2) afterText_audio [where dec = dec and b = b and d = d and now = now, OF a assms(4,5,6)]
    by (auto simp: onmessage_def onmessage_plain_def)
  show "nodes (state_of (h now m st)) =
           nodes st @ [\<lparr>startAt = max now (nextStartTimeRef st), duration = d, status = Scheduled\<rparr>]"
    by (simp add: e)
  show "nextStartTimeRef (state_of (h now m st)) = max now (nextStartTimeRef st) + d"
    by (simp add: e)
  show "isMounted (state_of (h now m st))" using assms(2) by (simp add: e)
  show "audioContextRef (state_of (h now m st))" using assms(3) by (simp add: e)
qed

lemma run_audio:
  assumes h: "h = onmessage dec \<or> h = onmessage_plain dec"
  shows "isMounted st \<Longrightarrow> audioContextRef st \<Longrightarrow>
         list_all2 (\<lambda>(now, m) d. \<not> interrupted m \<and> (\<exists>b. inlineData m = Some b \<and> dec b = Some d)) ms ds \<Longrightarrow>
         nodes (run h ms st) = nodes st @ spec_schedule (nextStartTimeRef st) (zip (map fst ms) ds)
         \<and> nextStartTimeRef (run h ms st) = spec_next (nextStartTimeRef st) (zip (map fst ms) ds)"
proof (induction ms arbitrary: st ds)
  case Nil
  then show ?case by simp
next
  case (Cons a ms)
  obtain now m where a: "a = (now, m)" by (cases a)
  from Cons.prems(3) obtain d ds' where ds: "ds = d # ds'"
    and hd: "\<not> interrupted m" "\<exists>b. inlineData m = Some b \<and> dec b = Some d"
    and tl: "list_all2 (\<lambda>(now, m) d. \<not> interrupted m \<and> (\<exists>b. inlineData m = Some b \<and> dec b = Some d)) ms ds'"
    by (auto simp: a list_all2_Cons1)
  from hd(2) obtain b where b: "inlineData m = Some b" "dec b = Some d" by blast
  let ?st = "state_of (h now m st)"
  note step = handler_audio_step [OF h Cons.prems(1,2) hd(1) b, of now]
  have ih: "nodes (run h ms ?st) = nodes ?st @ spec_schedule (nextStartTimeRef ?st) (zip (map fst ms) ds')
         \<and> nextStartTimeRef (run h ms ?st) = spec_next (nextStartTimeRef ?st) (zip (map fst ms) ds')"
    by (rule Cons.IH [OF step(3) step(4) tl])
  show ?case
    using ih by (simp add: a ds step(1,2) Let_def)
qed

lemma spec_schedule_length [simp]: "length (spec_schedule n segs) = length segs"
  by (induction n segs rule: spec_schedule.induct) (simp_all add: Let_def)

lemma spec_schedule_duration:
  "i < length segs \<Longrightarrow> duration (spec_schedule n segs ! i) = snd (segs ! i)"
proof (induction n segs arbitrary: i rule: spec_schedule.induct)
  case (1 n)
  then show ?case by simp
next
  case (2 n t d segs)
  then show ?case by (cases i) (simp_all add: Let_def)
qed

lemma spec_schedule_first:
  "segs \<noteq> [] \<Longrightarrow> startAt (spec_schedule n segs ! 0) = max (fst (segs ! 0)) n"
  by (cases segs) (auto simp: Let_def)

lemma spec_schedule_next:
  "Suc i < length segs \<Longrightarrow>
   startAt (spec_schedule n segs ! Suc i) =
     max (fst (segs ! Suc i)) (startAt (spec_schedule n segs ! i) + duration (spec_schedule n segs ! i))"
proof (induction n segs arbitrary: i rule: spec_schedule.induct)
  case (1 n)
  then show ?case by simp
next
  case (2 n t d segs)
  show ?case
  proof (cases i)
    case 0
    then show ?thesis using 2 by (cases segs) (auto simp: Let_def)
  next
    case (Suc j)
    then show ?thesis using 2 by (simp add: Let_def)
  qed
qed

lemma spec_schedule_Nil [simp]: "spec_schedule n segs = [] \<longleftrightarrow> segs = []"
  by (induction n segs rule: spec_schedule.induct) (simp_all add: Let_def)

lemma spec_next_last:
  "spec_next n segs =
     (if segs = [] then n
      else startAt (last (spec_schedule n segs)) + duration (last (spec_schedule n segs)))"
  by (induction n segs rule: spec_schedule.induct) (auto simp: Let_def)

lemma decodedSegment_all2:
  assumes "list_all2 (decodedSegment dec) ms ds"
  shows "list_all2 (\<lambda>(now, m) d. \<not> interrupted m \<and> (\<exists>b. inlineData m = Some b \<and> dec b = Some d)) ms ds"
  using assms
  by (rule list_all2_mono) (auto simp: decodedSegment_def split: option.splits)

lemma tracked_nth:
  "tracked st \<longleftrightarrow> (\<forall>i<length (nodes st). status (nodes st ! i) = Scheduled \<longrightarrow> i \<in> sourcesRef st)"
  by (simp add: tracked_def list_all_length nth_enumerate_eq)

lemma stopAll_length [simp]: "length (stopAll S ns) = length ns"
  by (simp add: stopAll_def)

lemma stopAll_nth:
  "i < length ns \<Longrightarrow> stopAll S ns ! i = (if i \<in> S then stopNode (ns ! i) else ns ! i)"
  by (simp add: stopAll_def nth_enumerate_eq)

lemma stopNode_status [simp]: "status (stopNode n) \<noteq> Scheduled"
  by (simp add: stopNode_def)

lemma tracked_initial: "tracked initial"
  by (simp add: tracked_def initial_def)

lemma tracked_cong:
  "nodes st' = nodes st \<Longrightarrow> sourcesRef st' = sourcesRef st \<Longrightarrow> tracked st' = tracked st"
  by (simp add: tracked_nth)

lemma tracked_schedule: "tracked st \<Longrightarrow> tracked (schedule now d st)"
  by (auto simp: tracked_nth nth_append)

lemma tracked_handleAudio: "tracked st \<Longrightarrow> tracked (state_of (handleAudio dec now m st))"
  by (auto simp: handleAudio_def tracked_schedule split: option.splits)

lemma handleInterruption_playback:
  "nodes (handleInterruption now m st) =
     (if interrupted m then stopAll (sourcesRef st) (nodes st) else nodes st)"
  "sourcesRef (handleInterruption now m st) = (if interrupted m then {} else sourcesRef st)"
  "nextStartTimeRef (handleInterruption now m st) =
     (if interrupted m then (if audioContextRef st then now else 0) else nextStartTimeRef st)"
  by (simp_all add: handleInterruption_def)

lemma stopped_after_interruption:
  assumes "tracked st" "interrupted m"
  shows "\<forall>n \<in> set (nodes (handleInterruption now m st)). status n \<noteq> Scheduled"
proof -
  have "status (stopAll (sourcesRef st) (nodes st) ! i) \<noteq> Scheduled" if "i < length (nodes st)" for i
    using that assms(1) by (auto simp: stopAll_nth tracked_nth)
  then show ?thesis
    using assms(2) by (auto simp: handleInterruption_playback in_set_conv_nth)
qed

lemma tracked_handleInterruption: "tracked st \<Longrightarrow> tracked (handleInterruption now m st)"
proof (cases "interrupted m")
  case True
  assume "tracked st"
  from stopped_after_interruption [OF this True, of now]
  show ?thesis by (auto simp: tracked_nth)
next
  case False
  assume "tracked st"
  then show ?thesis using False by (simp add: tracked_nth handleInterruption_playback)
qed

lemma tracked_afterText: "tracked st \<Longrightarrow> tracked (state_of (afterText dec now m st))"
proof -
  assume t: "tracked st"
  have "tracked (handleTranscription m st)" using t by (simp add: tracked_nth)
  then have a: "tracked (state_of (handleAudio dec now m (handleTranscription m st)))"
    by (rule tracked_handleAudio)
  show ?thesis
    using a tracked_handleInterruption [OF a]
    by (cases "handleAudio dec now m (handleTranscription m st)") (simp_all add: afterText_def)
qed

lemma tracked_handler:
  assumes "h = onmessage dec \<or> h = onmessage_plain dec" "tracked st"
  shows "tracked (state_of (h now m st))"
proof -
  have "tracked (handleToolCall m st)" using assms(2) by (simp add: tracked_nth)
  then show ?thesis
    using assms tracked_afterText
    by (cases "isMounted st") (auto simp: onmessage_def onmessage_plain_def)
qed

lemma tracked_onended: "tracked st \<Longrightarrow> tracked (onended i st)"
  by (auto simp: tracked_nth onended_def nth_list_update)

lemma tracked_run:
  assumes "h = onmessage dec \<or> h = onmessage_plain dec"
  shows "tracked st \<Longrightarrow> tracked (run h ms st)"
proof (induction ms arbitrary: st)
  case Nil
  then show ?case by simp
next
  case (Cons a ms)
  obtain now m where a: "a = (now, m)" by (cases a)
  show ?case
    unfolding a run.simps
    by (rule Cons.IH [OF tracked_handler [OF assms Cons.prems]])
qed

lemma afterText_interrupted:
  assumes "interrupted m" "inlineData m = None \<or> (\<exists>b d. inlineData m = Some b \<and> dec b = Some d)"
  shows "state_of (afterText dec now m st) =
           handleInterruption now m (state_of (handleAudio dec now m (handleTranscription m st)))"
  using assms by (auto simp: afterText_def handleAudio_def split: option.splits)

lemma handler_interrupted:
  assumes h: "h = onmessage dec \<or> h = onmessage_plain dec"
    and "isMounted st" "interrupted m"
    and "inlineData m = None \<or> (\<exists>b d. inlineData m = Some b \<and> dec b = Some d)"
  shows "\<exists>s. state_of (h now m st) = handleInterruption now m s
            \<and> (tracked st \<longrightarrow> tracked s) \<and> audioContextRef s = audioContextRef st
            \<and> length (nodes st) \<le> length (nodes s)
            \<and> (\<forall>i<length (nodes st). nodes s ! i = nodes st ! i)
            \<and> sourcesRef st \<subseteq> sourcesRef s"
proof -
  let ?s0 = "if h = onmessage dec then handleToolCall m st else st"
  let ?s1 = "handleTranscription m ?s0"
  let ?s = "state_of (handleAudio dec now m ?s1)"
  have e: "state_of (h now m st) = handleInterruption now m ?s"
    using h assms(2) afterText_interrupted [OF assms(3,4)]
    by (auto simp: onmessage_def onmessage_plain_def)
  have t: "tracked st \<longrightarrow> tracked ?s"
  proof
    assume "tracked st"
    then have "tracked ?s1" by (simp add: tracked_nth)
    then show "tracked ?s" by (rule tracked_handleAudio)
  qed
  have n: "nodes ?s1 = nodes st" "sourcesRef ?s1 = sourcesRef st" by simp_all
  have l: "length (nodes st) \<le> length (nodes ?s) \<and> (\<forall>i<length (nodes st). nodes ?s ! i = nodes st ! i)
           \<and> sourcesRef st \<subseteq> sourcesRef ?s"
    using n by (auto simp: handleAudio_def nth_append split: option.splits)
  show ?thesis using e t l by (intro exI [of _ ?s]) simp
qed

lemma stopAll_startAt:
  "i < length ns \<Longrightarrow> startAt (stopAll S ns ! i) = startAt (ns ! i)"
  by (simp add: stopAll_nth stopNode_def)

lemma handler_audio_node:
  assumes h: "h = onmessage dec \<or> h = onmessage_plain dec"
    and "isMounted st" "audioContextRef st" "inlineData m = Some b" "dec b = Some d"
  shows "length (nodes (state_of (h now m st))) = Suc (length (nodes st))
       \<and> startAt (nodes (state_of (h now m st)) ! length (nodes st)) = max now (nextStartTimeRef st)"
proof -
  let ?s0 = "if h = onmessage dec then handleToolCall m st else st"
  let ?s1 = "handleTranscription m ?s0"
  let ?s = "schedule now d ?s1"
  have a: "handleAudio dec now m ?s1 = Resolved ?s"
    using assms(3,4,5) by (simp add: handleAudio_def)
  have e: "state_of (h now m st) = handleInterruption now m ?s"
    using h assms(2) a by (auto simp: onmessage_def onmessage_plain_def afterText_def)
  have n: "nodes ?s = nodes st @ [\<lparr>startAt = max now (nextStartTimeRef st), duration = d,
              status = Scheduled\<rparr>]"
    by simp
  show ?thesis
    by (cases "interrupted m")
       (simp_all add: e handleInterruption_playback n stopAll_startAt del: schedule_fields)
qed

subsection \<open>Tasks and sends\<close>

lemma runCallback_frame [simp]:
  "isMounted (runCallback k st) = isMounted st"
  "isConnectedRef (runCallback k st) = isConnectedRef st"
  "isMicOnRef (runCallback k st) = isMicOnRef st"
  "volume (runCallback k st) = volume st"
  "currentTask (runCallback k st) = currentTask st"
  "sessionPromise (runCallback k st) = sessionPromise st"
  "sessionPromiseRef (runCallback k st) = sessionPromiseRef st"
  "callbacks (runCallback k st) = callbacks st"
  by (cases k; simp)+

lemma runCallbacks_frame [simp]:
  "isMounted (runCallbacks ks st) = isMounted st"
  "isConnectedRef (runCallbacks ks st) = isConnectedRef st"
  "isMicOnRef (runCallbacks ks st) = isMicOnRef st"
  "volume (runCallbacks ks st) = volume st"
  "currentTask (runCallbacks ks st) = currentTask st"
  "sessionPromise (runCallbacks ks st) = sessionPromise st"
  "sessionPromiseRef (runCallbacks ks st) = sessionPromiseRef st"
  "callbacks (runCallbacks ks st) = callbacks st"
  unfolding runCallbacks_def by (induction ks arbitrary: st; simp)+

lemma live_fields [simp]:
  "isMounted live" "isConnectedRef live" "sessionPromise live = Fulfilled" "sessionPromiseRef live"
  "outbox live = []" "callbacks live = []" "currentTask live = None" "isMicOnRef live" "volume live = 0"
  by (simp_all add: live_def sessionResolved_def onopen_def initial_def runCallbacks_def)

lemma currentTask_handleToolCall:
  "currentTask (handleToolCall m st) =
     (case toolCall m of
        None \<Rightarrow> currentTask st
      | Some calls \<Rightarrow>
          (case calls of
             [] \<Rightarrow> currentTask st
           | call # rest \<Rightarrow>
               if name call = Some ''assignCodingTask''
               then Some \<lparr>title = js_or_opt (arg_title (call_args call)) ''Coding Task'',
                          description = js_or_opt (arg_description (call_args call)) ''Solve the problem.''\<rparr>
               else currentTask st))"
  by (simp add: handleToolCall_def Let_def split: option.splits list.splits)

lemma currentTask_onmessage:
  "currentTask (state_of (onmessage dec now m st)) =
     (if isMounted st then currentTask (handleToolCall m st) else currentTask st)"
  by (cases "isMounted st") (simp_all add: onmessage_def)

lemma outbox_handleToolCall:
  "outbox (handleToolCall m st) =
     (case toolCall m of
        None \<Rightarrow> outbox st
      | Some calls \<Rightarrow>
          (case calls of
             [] \<Rightarrow> outbox st
           | call # rest \<Rightarrow>
               if name call = Some ''assignCodingTask'' \<and> isConnectedRef st \<and> sessionPromiseRef st
                  \<and> sessionPromise st = Fulfilled
               then outbox st @ [ToolResponse (call_id call) (name call)
                                   ''Task assigned and displayed to candidate.'']
               else outbox st))"
  by (simp add: handleToolCall_def Let_def thenSession_def split: option.splits list.splits promise.splits)

lemma callbacks_handleToolCall:
  "\<not> isConnectedRef st \<Longrightarrow> callbacks (handleToolCall m st) = callbacks st"
  by (simp add: handleToolCall_def Let_def split: option.splits list.splits)

lemma outbox_onmessage:
  "outbox (state_of (onmessage dec now m st)) =
     (if isMounted st then outbox (handleToolCall m st) else outbox st)"
  by (cases "isMounted st") (simp_all add: onmessage_def)

lemma callbacks_onmessage:
  "callbacks (state_of (onmessage dec now m st)) =
     (if isMounted st then callbacks (handleToolCall m st) else callbacks st)"
  by (cases "isMounted st") (simp_all add: onmessage_def)

lemma currentTask_step:
  "currentTask (step dec enc ev st) =
     (if assignsTask ev \<and> isMounted st then currentTask (step dec enc ev st) else currentTask st)"
proof (cases ev)
  case (Onmessage now m)
  then show ?thesis
    by (auto simp: currentTask_onmessage currentTask_handleToolCall split: option.splits list.splits)
next
  case (Onaudioprocess e)
  then show ?thesis by (simp add: onaudioprocess_def Let_def)
next
  case (VideoTick c)
  then show ?thesis by (simp add: videoInterval_def)
next
  case Cleanup
  then show ?thesis by (simp add: cleanup_def Let_def)
qed (simp_all add: onopen_def onclose_def onerror_def sessionResolved_def sessionRejected_def
      onended_def setIsMicOn_def)

lemma currentTask_step_kept:
  "currentTask st \<noteq> None \<Longrightarrow> currentTask (step dec enc ev st) \<noteq> None"
proof (cases "assignsTask ev \<and> isMounted st")
  case True
  then obtain now m where ev: "ev = Onmessage now m" by (cases ev) auto
  show ?thesis using True
    by (auto simp: ev currentTask_onmessage currentTask_handleToolCall split: option.splits list.splits)
next
  case False
  assume "currentTask st \<noteq> None"
  then show ?thesis using False currentTask_step [of dec enc ev st] by auto
qed

lemma currentTask_steps_kept:
  "currentTask st \<noteq> None \<Longrightarrow> currentTask (steps dec enc evs st) \<noteq> None"
proof (induction evs arbitrary: st)
  case Nil
  then show ?case by simp
next
  case (Cons ev evs)
  have "currentTask (step dec enc ev st) \<noteq> None"
    by (rule currentTask_step_kept [OF Cons.prems])
  then show ?case using Cons.IH by simp
qed

lemma currentTask_steps_same:
  "\<forall>ev \<in> set evs. \<not> assignsTask ev \<Longrightarrow> currentTask (steps dec enc evs st) = currentTask st"
proof (induction evs arbitrary: st)
  case Nil
  show ?case by simp
next
  case (Cons ev evs)
  have "currentTask (step dec enc ev st) = currentTask st"
    using Cons.prems currentTask_step [of dec enc ev st] by simp
  then show ?case using Cons by simp
qed

lemma cleanup_guards_sends:
  "onaudioprocess enc inputData (cleanup st) = cleanup st
   \<and> videoInterval c (cleanup st) = cleanup st
   \<and> runCallback (SendIfConnected mimeType d) (cleanup st) = cleanup st"
  by (simp add: onaudioprocess_def videoInterval_def cleanup_def Let_def)

lemma sessionOpen_live: "sessionOpen live"
  by (simp add: sessionOpen_def)

lemma sessionOpen_onmessage:
  "sessionOpen st \<Longrightarrow> sessionOpen (state_of (onmessage dec now m st))"
  by (simp add: sessionOpen_def onmessage_def)

lemma sessionOpen_step:
  assumes "sessionOpen st" "\<not> closes ev"
  shows "sessionOpen (step dec enc ev st)"
proof (cases ev)
  case (Onmessage now m)
  then show ?thesis using assms(1) by (simp add: sessionOpen_onmessage)
next
  case (Onaudioprocess e)
  then show ?thesis using assms(1) by (simp add: sessionOpen_def onaudioprocess_def Let_def)
next
  case (VideoTick c)
  then show ?thesis using assms(1) by (simp add: sessionOpen_def videoInterval_def)
qed (use assms in \<open>simp_all add: sessionOpen_def onopen_def sessionResolved_def sessionRejected_def
      onended_def setIsMicOn_def\<close>)

lemma sessionOpen_steps:
  "sessionOpen st \<Longrightarrow> \<forall>ev \<in> set evs. \<not> closes ev \<Longrightarrow> sessionOpen (steps dec enc evs st)"
proof (induction evs arbitrary: st)
  case Nil
  then show ?case by simp
next
  case (Cons ev evs)
  have "sessionOpen (step dec enc ev st)"
    by (rule sessionOpen_step) (use Cons.prems in simp_all)
  then show ?case using Cons by simp
qed

lemma js_or_opt_cases:
  "js_or_opt v d = (case v of None \<Rightarrow> d | Some s \<Rightarrow> if s = [] then d else s)"
  by (simp add: js_or_opt_def js_or_def truthy_def split: option.splits)

lemma callbacks_handleToolCall_open:
  "sessionPromise st = Fulfilled \<Longrightarrow> callbacks (handleToolCall m st) = callbacks st"
  by (simp add: handleToolCall_def Let_def thenSession_def split: option.splits list.splits)

subsection \<open>Report generation\<close>

lemma indexOf_ge: "- 1 \<le> indexOf s c"
  by (induction s) (auto simp: Let_def)

lemma indexOf_first: "c \<notin> set xs \<Longrightarrow> indexOf (xs @ c # ys) c = int (length xs)"
  by (induction xs) (auto simp: Let_def)

lemma lastIndexOf_last: "c \<notin> set ys \<Longrightarrow> lastIndexOf (xs @ c # ys) c = int (length xs)"
  using indexOf_first [of c "rev ys" "rev xs"] by (simp add: lastIndexOf_def Let_def)

lemma substring_middle:
  "substring (xs @ ys @ zs) (int (length xs)) (int (length xs) + int (length ys)) = ys"
  by (simp add: substring_def Let_def min_def max_def)

lemma stripJsonFence_match:
  assumes "take 7 (c # cs) = ''```json''"
  shows "stripJsonFence (c # cs) = stripJsonFence (dropWhile isSpace (drop 7 (c # cs)))"
proof -
  have "stripJsonFence (c # cs) =
     (if take 7 (c # cs) = ''```json'' then stripJsonFence (dropWhile isSpace (drop 7 (c # cs)))
      else c # stripJsonFence cs)"
    by (rule stripJsonFence.simps(2))
  also have "\<dots> = stripJsonFence (dropWhile isSpace (drop 7 (c # cs)))"
    by (rule if_P [OF assms])
  finally show ?thesis .
qed

lemma stripJsonFence_skip:
  assumes "take 7 (c # cs) \<noteq> ''```json''"
  shows "stripJsonFence (c # cs) = c # stripJsonFence cs"
proof -
  have "stripJsonFence (c # cs) =
     (if take 7 (c # cs) = ''```json'' then stripJsonFence (dropWhile isSpace (drop 7 (c # cs)))
      else c # stripJsonFence cs)"
    by (rule stripJsonFence.simps(2))
  also have "\<dots> = c # stripJsonFence cs"
    by (rule if_not_P [OF assms])
  finally show ?thesis .
qed

lemma fence_length: "take 7 s = ''```json'' \<Longrightarrow> 7 \<le> length s"
proof -
  assume "take 7 s = ''```json''"
  then have "length (take 7 s) = length ''```json''" by (rule arg_cong)
  then show ?thesis by simp
qed

lemma set_stripJsonFence: "set (stripJsonFence s) \<subseteq> set s"
proof (induction s rule: stripJsonFence.induct)
  case 1
  show ?case by simp
next
  case (2 c cs)
  show ?case
  proof (cases "take 7 (c # cs) = ''```json''")
    case True
    have "set (dropWhile isSpace (drop 7 (c # cs))) \<subseteq> set (drop 7 (c # cs))"
      by (auto dest: set_dropWhileD)
    moreover have "set (drop 7 (c # cs)) \<subseteq> set (c # cs)" by (rule set_drop_subset)
    ultimately show ?thesis
      unfolding stripJsonFence_match [OF True] using 2(1) [OF True] by blast
  next
    case False
    show ?thesis
      unfolding stripJsonFence_skip [OF False] using 2(2) [OF False] by auto
  qed
qed

lemma take_append_notin:
  assumes "c \<notin> set p"
  shows "take (length p) (xs @ c # ys) = p \<longleftrightarrow> take (length p) xs = p"
proof (cases "length p \<le> length xs")
  case True
  then show ?thesis by simp
next
  case False
  then have l: "length xs < length p" by simp
  have "take (length p) (xs @ c # ys) \<noteq> p"
  proof
    assume e: "take (length p) (xs @ c # ys) = p"
    have "take (length p) (xs @ c # ys) ! length xs = c" using l by (simp add: nth_append)
    then have "p ! length xs = c" using e by simp
    then have "c \<in> set p" using l nth_mem by fastforce
    then show False using assms by simp
  qed
  moreover have "take (length p) xs \<noteq> p"
  proof
    assume "take (length p) xs = p"
    then have "length (take (length p) xs) = length p" by simp
    then show False using l by simp
  qed
  ultimately show ?thesis by simp
qed

lemma stripJsonFence_split:
  assumes "c \<notin> set ''```json''" "\<not> isSpace c"
  shows "stripJsonFence (pre @ c # rest) = stripJsonFence pre @ stripJsonFence (c # rest)"
proof (induction pre rule: stripJsonFence.induct)
  case 1
  show ?case by simp
next
  case (2 x xs)
  have "take (length ''```json'') ((x # xs) @ c # rest) = ''```json''
          \<longleftrightarrow> take (length ''```json'') (x # xs) = ''```json''"
    by (rule take_append_notin [OF assms(1)])
  moreover have "length ''```json'' = 7" by simp
  ultimately have t: "take 7 (x # (xs @ c # rest)) = ''```json'' \<longleftrightarrow> take 7 (x # xs) = ''```json''"
    by (simp only: append_Cons)
  show ?case
  proof (cases "take 7 (x # xs) = ''```json''")
    case True
    have T: "take 7 (x # (xs @ c # rest)) = ''```json''" using True t by blast
    have l: "7 \<le> length (x # xs)" by (rule fence_length [OF True])
    have "drop 7 ((x # xs) @ c # rest) = drop 7 (x # xs) @ c # rest"
      using l by (simp only: drop_append) simp
    then have d0: "drop 7 (x # (xs @ c # rest)) = drop 7 (x # xs) @ c # rest"
      by (simp only: append_Cons)
    have d: "dropWhile isSpace (drop 7 (x # (xs @ c # rest)))
           = dropWhile isSpace (drop 7 (x # xs)) @ c # rest"
      unfolding d0 by (rule dropWhile_append3 [where P = isSpace and y = c, OF assms(2)])
    have "stripJsonFence ((x # xs) @ c # rest)
            = stripJsonFence (dropWhile isSpace (drop 7 (x # (xs @ c # rest))))"
      unfolding append_Cons by (rule stripJsonFence_match [OF T])
    also have "\<dots> = stripJsonFence (dropWhile isSpace (drop 7 (x # xs))) @ stripJsonFence (c # rest)"
      unfolding d by (rule 2(1) [OF True])
    also have "stripJsonFence (dropWhile isSpace (drop 7 (x # xs))) = stripJsonFence (x # xs)"
      by (rule stripJsonFence_match [OF True, symmetric])
    finally show ?thesis .
  next
    case False
    have F: "take 7 (x # (xs @ c # rest)) \<noteq> ''```json''" using False t by blast
    have "stripJsonFence ((x # xs) @ c # rest) = x # stripJsonFence (xs @ c # rest)"
      unfolding append_Cons by (rule stripJsonFence_skip [OF F])
    also have "\<dots> = x # (stripJsonFence xs @ stripJsonFence (c # rest))"
      by (simp only: 2(2) [OF False])
    also have "\<dots> = stripJsonFence (x # xs) @ stripJsonFence (c # rest)"
      by (simp only: stripJsonFence_skip [OF False] append_Cons)
    finally show ?thesis .
  qed
qed

lemma stripJsonFence_no_backtick:
  "CHR 0x60 \<notin> set xs \<Longrightarrow> stripJsonFence (xs @ ys) = xs @ stripJsonFence ys"
proof (induction xs)
  case Nil
  show ?case by simp
next
  case (Cons x xs)
  have "x \<noteq> CHR 0x60" using Cons.prems by auto
  then have "take 7 (x # (xs @ ys)) \<noteq> ''```json''" by simp
  then have "stripJsonFence (x # (xs @ ys)) = x # stripJsonFence (xs @ ys)"
    by (rule stripJsonFence_skip)
  then show ?case using Cons by simp
qed

lemma set_stripTrailingFence: "set (stripTrailingFence s) \<subseteq> set s"
  by (induction s) auto

lemma stripTrailingFence_split:
  assumes "c \<noteq> CHR 0x60" "\<not> isSpace c"
  shows "stripTrailingFence (xs @ c # ys) = xs @ c # stripTrailingFence ys"
proof (induction xs)
  case Nil
  show ?case using assms by simp
next
  case (Cons x xs)
  have "\<not> (take 3 ((x # xs) @ c # ys) = ''```'' \<and> list_all isSpace (drop 3 ((x # xs) @ c # ys)))"
  proof
    assume a: "take 3 ((x # xs) @ c # ys) = ''```'' \<and> list_all isSpace (drop 3 ((x # xs) @ c # ys))"
    have "c \<in> set (take 3 ((x # xs) @ c # ys)) \<or> c \<in> set (drop 3 ((x # xs) @ c # ys))"
      by (metis Un_iff append_take_drop_id in_set_conv_decomp set_append)
    then show False using a assms by (auto simp: list_all_iff simp del: drop_Cons_numeral take_Cons_numeral)
  qed
  then show ?case using Cons by (simp del: drop_Cons_numeral take_Cons_numeral)
qed

lemma cleanJson_wrapped:
  assumes "CHR ''{'' \<notin> set pre" "CHR ''}'' \<notin> set suf" "CHR 0x60 \<notin> set mid"
  shows "cleanJson (pre @ CHR ''{'' # mid @ CHR ''}'' # suf) = CHR ''{'' # mid @ ''}''"
proof -
  let ?obj = "CHR ''{'' # mid @ ''}''"
  let ?P = "stripJsonFence pre"
  let ?S = "stripTrailingFence (stripJsonFence suf)"
  have s: "\<not> isSpace CHR ''{''" "\<not> isSpace CHR ''}''" by (simp_all add: isSpace_def)
  have "stripJsonFence (pre @ CHR ''{'' # mid @ CHR ''}'' # suf)
          = ?P @ stripJsonFence (?obj @ suf)"
    using stripJsonFence_split [of "CHR ''{''" pre "mid @ CHR ''}'' # suf"] s by simp
  also have "stripJsonFence (?obj @ suf) = ?obj @ stripJsonFence suf"
    by (rule stripJsonFence_no_backtick) (use assms(3) in simp)
  finally have 1: "stripJsonFence (pre @ CHR ''{'' # mid @ CHR ''}'' # suf)
          = (?P @ CHR ''{'' # mid) @ CHR ''}'' # stripJsonFence suf" by simp
  have 2: "stripTrailingFence (stripJsonFence (pre @ CHR ''{'' # mid @ CHR ''}'' # suf))
          = ?P @ ?obj @ ?S"
    unfolding 1 using stripTrailingFence_split [of "CHR ''}''" "?P @ CHR ''{'' # mid" "stripJsonFence suf"] s
    by simp
  have p: "CHR ''{'' \<notin> set ?P" using assms(1) set_stripJsonFence [of pre] by blast
  have q: "CHR ''}'' \<notin> set ?S"
    using assms(2) set_stripJsonFence [of suf] set_stripTrailingFence [of "stripJsonFence suf"] by blast
  have i: "indexOf (?P @ ?obj @ ?S) CHR ''{'' = int (length ?P)"
    using indexOf_first [OF p, of "mid @ ''}'' @ ?S"] by simp
  have j: "lastIndexOf (?P @ ?obj @ ?S) CHR ''}'' = int (length ?P) + int (length mid) + 1"
    using lastIndexOf_last [OF q, of "?P @ CHR ''{'' # mid"] by simp
  have e: "int (length ?P) + int (length mid) + 1 + 1 = int (length ?P) + int (length ?obj)"
    by simp
  have k: "substring (?P @ ?obj @ ?S) (int (length ?P)) (int (length ?P) + int (length mid) + 1 + 1) = ?obj"
    unfolding e by (rule substring_middle)
  have n: "int (length ?P) \<noteq> - 1" "int (length ?P) + int (length mid) + 1 \<noteq> - 1" by simp_all
  show ?thesis
    unfolding cleanJson_def 2 Let_def i j using k n by (simp only: if_True simp_thms)
qed

lemma evaluate_failures:
  assumes "truthy apiKey"
    and "\<not> truthy_opt t \<or> (\<exists>s. t = Some s \<and> parse (cleanJson s) = None)"
  shows "evaluate apiKey (Text t) parse = Inl emptyResponseMessage
       \<or> evaluate apiKey (Text t) parse = Inl parseFailedMessage"
  using assms
  by (auto simp: evaluate_def truthy_opt_def split: option.splits)

lemma messages_truthy: "truthy emptyResponseMessage" "truthy parseFailedMessage"
  by (simp_all add: truthy_def emptyResponseMessage_def parseFailedMessage_def)

lemma generateReport_error:
  assumes "profile st \<noteq> None" "evaluate apiKey response parse = Inl message"
  shows "generateReport apiKey response parse st
           = st\<lparr>appState := ANALYZING, generationError := Some message\<rparr>"
  using assms by (cases "profile st") (simp_all add: generateReport_def Let_def)

lemma generateReport_success:
  assumes "profile st \<noteq> None" "truthy apiKey" "truthy s" "parse (cleanJson s) = Some r"
  shows "generateReport apiKey (Text (Some s)) parse st
           = st\<lparr>appState := REPORT, generationError := None, report := Some r\<rparr>"
  using assms by (cases "profile st") (simp_all add: generateReport_def evaluate_def Let_def)

lemma generateReport_plain_empty:
  assumes "profile st \<noteq> None" "truthy apiKey" "\<not> truthy_opt t" "parse ''{}'' = Some r"
  shows "generateReport_plain apiKey (Text t) parse st = st\<lparr>appState := REPORT, report := Some r\<rparr>"
  using assms by (auto simp: generateReport_plain_def truthy_opt_def Let_def split: option.splits)

lemma stripJsonFence_no_j: "CHR ''j'' \<notin> set s \<Longrightarrow> stripJsonFence s = s"
proof (induction s)
  case Nil
  show ?case by simp
next
  case (Cons c cs)
  have "take 7 (c # cs) \<noteq> ''```json''"
  proof
    assume e: "take 7 (c # cs) = ''```json''"
    have "CHR ''j'' \<in> set (take 7 (c # cs))" unfolding e by simp
    then have "CHR ''j'' \<in> set (c # cs)" by (rule in_set_takeD)
    then show False using Cons.prems by simp
  qed
  then have "stripJsonFence (c # cs) = c # stripJsonFence cs" by (rule stripJsonFence_skip)
  then show ?case using Cons by simp
qed

lemma stripTrailingFence_no_backtick:
  "CHR 0x60 \<notin> set xs \<Longrightarrow> stripTrailingFence (xs @ ys) = xs @ stripTrailingFence ys"
  by (induction xs) auto

lemma indexOf_absent: "c \<notin> set s \<Longrightarrow> indexOf s c = - 1"
  by (induction s) (auto simp: Let_def)

lemma space_not_j: "isSpace c \<Longrightarrow> c \<noteq> CHR ''j''"
  by (auto simp: isSpace_def)

lemma cleanJson_fenced:
  assumes "list_all isSpace lead" "list_all isSpace trail"
    and "CHR 0x60 \<notin> set body" "CHR ''{'' \<notin> set body"
    and "body = [] \<or> \<not> isSpace (hd body)"
  shows "cleanJson (''```json'' @ lead @ body @ ''```'' @ trail) = body"
proof -
  let ?tail = "''```'' @ trail"
  have t7: "take 7 (CHR 0x60 # (''``json'' @ lead @ body @ ?tail)) = ''```json''" by simp
  have d7: "drop 7 (CHR 0x60 # (''``json'' @ lead @ body @ ?tail)) = lead @ body @ ?tail" by simp
  have a: "stripJsonFence (''```json'' @ lead @ body @ ?tail)
             = stripJsonFence (dropWhile isSpace (lead @ body @ ?tail))"
    using stripJsonFence_match [OF t7] unfolding d7 by simp
  have "dropWhile isSpace (lead @ body @ ?tail) = dropWhile isSpace (body @ ?tail)"
    by (rule dropWhile_append2) (use assms(1) in \<open>simp add: list_all_iff\<close>)
  also have "\<dots> = body @ ?tail"
  proof (cases body)
    case Nil
    then show ?thesis by (simp add: isSpace_def)
  next
    case (Cons b bs)
    then show ?thesis using assms(5) by simp
  qed
  finally have b: "dropWhile isSpace (lead @ body @ ?tail) = body @ ?tail" .
  have j: "CHR ''j'' \<notin> set ?tail" using assms(2) space_not_j by (auto simp: list_all_iff)
  have c: "stripJsonFence (body @ ?tail) = body @ ?tail"
    using stripJsonFence_no_backtick [OF assms(3), of ?tail] stripJsonFence_no_j [OF j] by simp
  have e: "stripTrailingFence ?tail = []" using assms(2) by simp
  have f: "stripTrailingFence (body @ ?tail) = body"
    using stripTrailingFence_no_backtick [OF assms(3), of ?tail] e by simp
  have 1: "stripTrailingFence (stripJsonFence (''```json'' @ lead @ body @ ?tail)) = body"
    by (simp only: a b c f)
  show ?thesis
    unfolding cleanJson_def 1 Let_def by (simp add: indexOf_absent [OF assms(4)])
qed

lemma recoverableError_intro:
  assumes "truthy message"
  shows "recoverableError message st (st\<lparr>appState := ANALYZING, generationError := Some message\<rparr>)"
  using assms
  by (simp add: recoverableError_def clickReturnToSetup_def render_def returnToSetup_def)

lemma generateReport_plain_failure:
  assumes "profile st \<noteq> None" "truthy apiKey" "truthy s" "parse s = None"
  shows "generateReport_plain apiKey (Text (Some s)) parse st
           = st\<lparr>appState := SETUP, alerts := alerts st @ [failedAlert]\<rparr>"
  using assms by (cases "profile st") (simp_all add: generateReport_plain_def Let_def)

section \<open>The playback scheduler\<close>

text \<open>
  C1. For every sequence of messages that bring decoded audio segments, without an
  interruption, handled by a mounted component with an audio context: the nodes created
  are those of the specification's scheduler, so each start time is the maximum of the
  clock reading and the previous \<open>nextStartTime\<close>, which then advances by the duration;
  start times never decrease, a segment never starts before its predecessor ends, and
  when a segment arrives before its predecessor finishes it starts exactly where the
  predecessor ends. This holds for the handler of both components.
\<close>

theorem playback_contiguous:
  assumes "h = onmessage dec \<or> h = onmessage_plain dec"
    and "isMounted st" and "audioContextRef st"
    and "list_all2 (decodedSegment dec) ms ds"
    and "S = scheduledSince st (run h ms st)"
  shows "S = spec_schedule (nextStartTimeRef st) (zip (map fst ms) ds)
       \<and> (\<forall>i<length ms. duration (S ! i) = ds ! i
             \<and> startAt (S ! i) = max (fst (ms ! i))
                 (if i = 0 then nextStartTimeRef st
                  else startAt (S ! (i - 1)) + duration (S ! (i - 1))))
       \<and> (\<forall>i. Suc i < length ms \<longrightarrow>
             startAt (S ! i) \<le> startAt (S ! Suc i)
             \<and> startAt (S ! i) + duration (S ! i) \<le> startAt (S ! Suc i)
             \<and> (fst (ms ! Suc i) \<le> startAt (S ! i) + duration (S ! i)
                  \<longrightarrow> startAt (S ! Suc i) = startAt (S ! i) + duration (S ! i)))
       \<and> nextStartTimeRef (run h ms st) =
           (if ms = [] then nextStartTimeRef st else startAt (last S) + duration (last S))"
proof -
  let ?segs = "zip (map fst ms) ds"
  have len: "length ds = length ms" using assms(4) by (simp add: list_all2_lengthD)
  have lsegs: "length ?segs = length ms" using len by simp
  have r: "nodes (run h ms st) = nodes st @ spec_schedule (nextStartTimeRef st) ?segs"
          "nextStartTimeRef (run h ms st) = spec_next (nextStartTimeRef st) ?segs"
    using run_audio [OF assms(1,2,3) decodedSegment_all2 [OF assms(4)]] by simp_all
  have S: "S = spec_schedule (nextStartTimeRef st) ?segs"
    by (simp add: assms(5) scheduledSince_def r(1))
  have dur: "duration (S ! i) = ds ! i" if "i < length ms" for i
    using that len by (simp add: S spec_schedule_duration)
  have nonneg: "0 \<le> ds ! i" if "i < length ms" for i
    using assms(4) that by (auto simp: list_all2_conv_all_nth decodedSegment_def)
  have first: "startAt (S ! 0) = max (fst (ms ! 0)) (nextStartTimeRef st)" if "0 < length ms"
  proof -
    have "ds \<noteq> []" using that len by auto
    then show ?thesis
      using that len spec_schedule_first [of ?segs "nextStartTimeRef st"] by (simp add: S)
  qed
  have nxt: "startAt (S ! Suc i) = max (fst (ms ! Suc i)) (startAt (S ! i) + duration (S ! i))"
    if "Suc i < length ms" for i
    using that len spec_schedule_next [of i ?segs "nextStartTimeRef st"] by (simp add: S)
  have starts: "startAt (S ! i) = max (fst (ms ! i))
                 (if i = 0 then nextStartTimeRef st
                  else startAt (S ! (i - 1)) + duration (S ! (i - 1)))" if "i < length ms" for i
  proof (cases i)
    case 0
    then show ?thesis using first that by simp
  next
    case (Suc j)
    then show ?thesis using nxt [of j] that by simp
  qed
  have pair: "startAt (S ! i) \<le> startAt (S ! Suc i)
             \<and> startAt (S ! i) + duration (S ! i) \<le> startAt (S ! Suc i)
             \<and> (fst (ms ! Suc i) \<le> startAt (S ! i) + duration (S ! i)
                  \<longrightarrow> startAt (S ! Suc i) = startAt (S ! i) + duration (S ! i))"
    if "Suc i < length ms" for i
  proof -
    have "0 \<le> duration (S ! i)" using that dur [of i] nonneg [of i] by simp
    then show ?thesis using nxt [OF that] by auto
  qed
  have fin: "nextStartTimeRef (run h ms st) =
           (if ms = [] then nextStartTimeRef st else startAt (last S) + duration (last S))"
    using lsegs by (simp add: r(2) spec_next_last S del: length_zip) auto
  show ?thesis using S dur starts pair fin by blast
qed

theorem playback_contiguous_witness:
  "scheduledSince initial
     (run (onmessage (\<lambda>b. if b = ''a'' then Some 1 else Some 2))
        [(0, audioMessage ''a''), (1 / 2, audioMessage ''b''), (5, audioMessage ''c'')] initial)
   = [\<lparr>startAt = 0, duration = 1, status = Scheduled\<rparr>,
      \<lparr>startAt = 1, duration = 2, status = Scheduled\<rparr>,
      \<lparr>startAt = 5, duration = 2, status = Scheduled\<rparr>]"
  using playback_contiguous [of "onmessage (\<lambda>b. if b = ''a'' then Some 1 else Some 2)"
          "\<lambda>b. if b = ''a'' then Some 1 else Some 2" initial
          "[(0, audioMessage ''a''), (1 / 2, audioMessage ''b''), (5, audioMessage ''c'')]"
          "[1, 2, 2]" "scheduledSince initial
     (run (onmessage (\<lambda>b. if b = ''a'' then Some 1 else Some 2))
        [(0, audioMessage ''a''), (1 / 2, audioMessage ''b''), (5, audioMessage ''c'')] initial)"]
  by (simp add: decodedSegment_def audioMessage_def initial_def Let_def)

text \<open>
  C2. When a message with the interruption signal has been processed by a mounted
  component with an audio context, the tracked set is empty, no node is scheduled or
  playing any more, every node that was pending has been stopped, \<open>nextStartTime\<close> is the
  clock reading of the interruption, and a segment scheduled next starts neither before
  the interruption nor before its own arrival.
\<close>

theorem interruption_resets_playback:
  assumes h: "h = onmessage dec \<or> h = onmessage_plain dec"
    and "isMounted st" and "audioContextRef st" and "tracked st"
    and "interrupted m"
    and "inlineData m = None \<or> (\<exists>b d. inlineData m = Some b \<and> dec b = Some d)"
    and "st' = state_of (h now m st)"
  shows "sourcesRef st' = {}
       \<and> (\<forall>n \<in> set (nodes st'). status n \<noteq> Scheduled)
       \<and> (\<forall>i<length (nodes st). status (nodes st ! i) = Scheduled
             \<longrightarrow> status (nodes st' ! i) = Stopped)
       \<and> nextStartTimeRef st' = now
       \<and> (\<forall>now2 m2 b2 d2. inlineData m2 = Some b2 \<and> dec b2 = Some d2 \<longrightarrow>
             length (nodes (state_of (h now2 m2 st'))) = Suc (length (nodes st'))
             \<and> now \<le> startAt (nodes (state_of (h now2 m2 st')) ! length (nodes st'))
             \<and> now2 \<le> startAt (nodes (state_of (h now2 m2 st')) ! length (nodes st')))"
proof -
  from handler_interrupted [OF h assms(2,5,6), of now]
  obtain s where s: "state_of (h now m st) = handleInterruption now m s"
    and ts: "tracked s" and cs: "audioContextRef s"
    and ls: "length (nodes st) \<le> length (nodes s)"
    and ns: "\<forall>i<length (nodes st). nodes s ! i = nodes st ! i"
    and ss: "sourcesRef st \<subseteq> sourcesRef s"
    using assms(3,4) by auto
  have e: "st' = handleInterruption now m s" using assms(7) s by simp
  have 1: "sourcesRef st' = {}" using assms(5) by (simp add: e handleInterruption_playback)
  have 2: "\<forall>n \<in> set (nodes st'). status n \<noteq> Scheduled"
    unfolding e by (rule stopped_after_interruption [OF ts assms(5)])
  have 3: "status (nodes st' ! i) = Stopped"
    if "i < length (nodes st)" "status (nodes st ! i) = Scheduled" for i
  proof -
    have "i \<in> sourcesRef st" using that assms(4) by (simp add: tracked_nth)
    then have "i \<in> sourcesRef s" using ss by auto
    moreover have "nodes s ! i = nodes st ! i" "i < length (nodes s)" using that ns ls by auto
    ultimately show ?thesis
      using assms(5) that(2) by (simp add: e handleInterruption_playback stopAll_nth stopNode_def)
  qed
  have 4: "nextStartTimeRef st' = now"
    using assms(5) cs by (simp add: e handleInterruption_playback)
  have m': "isMounted st'" "audioContextRef st'"
    using assms(2) cs by (simp_all add: assms(7) handler_isMounted [OF h]) (simp add: s)
  have 5: "length (nodes (state_of (h now2 m2 st'))) = Suc (length (nodes st'))
         \<and> now \<le> startAt (nodes (state_of (h now2 m2 st')) ! length (nodes st'))
         \<and> now2 \<le> startAt (nodes (state_of (h now2 m2 st')) ! length (nodes st'))"
    if "inlineData m2 = Some b2" "dec b2 = Some d2" for now2 m2 b2 d2
    using handler_audio_node [OF h m' that, of now2] 4 by simp
  show ?thesis using 1 2 3 4 5 by blast
qed

theorem interruption_resets_playback_witness:
  "nodes (state_of (onmessage (\<lambda>b. Some 2) 1 interruptedMessage
       (state_of (onmessage (\<lambda>b. Some 2) 0 (audioMessage ''a'') initial))))
     = [\<lparr>startAt = 0, duration = 2, status = Stopped\<rparr>]
   \<and> nextStartTimeRef (state_of (onmessage (\<lambda>b. Some 2) 1 interruptedMessage
       (state_of (onmessage (\<lambda>b. Some 2) 0 (audioMessage ''a'') initial)))) = 1
   \<and> sourcesRef (state_of (onmessage (\<lambda>b. Some 2) 1 interruptedMessage
       (state_of (onmessage (\<lambda>b. Some 2) 0 (audioMessage ''a'') initial)))) = {}"
proof -
  let ?dec = "\<lambda>b::string. Some (2::real)"
  let ?st = "state_of (onmessage ?dec 0 (audioMessage ''a'') initial)"
  have st: "?st = schedule 0 2 initial"
    by (simp add: onmessage_def afterText_def handleToolCall_def handleTranscription_def
        handleText_def handleAudio_def handleInterruption_def audioMessage_def initial_def)
  have n: "nodes ?st = [\<lparr>startAt = 0, duration = 2, status = Scheduled\<rparr>]"
    by (subst st) (simp add: initial_def)
  have t: "tracked ?st" by (subst st) (simp add: tracked_def initial_def)
  have a: "isMounted ?st" "audioContextRef ?st" by (subst st, simp add: initial_def)+
  have i: "interrupted interruptedMessage"
    "inlineData interruptedMessage = None \<or> (\<exists>b d. inlineData interruptedMessage = Some b \<and> ?dec b = Some d)"
    by (simp_all add: interruptedMessage_def)
  from interruption_resets_playback [of "onmessage ?dec" ?dec ?st interruptedMessage _ 1,
        OF _ a t i refl]
  have r: "sourcesRef (state_of (onmessage ?dec 1 interruptedMessage ?st)) = {}"
    "status (nodes (state_of (onmessage ?dec 1 interruptedMessage ?st)) ! 0) = Stopped"
    "nextStartTimeRef (state_of (onmessage ?dec 1 interruptedMessage ?st)) = 1"
    by (simp_all add: n)
  have k: "nodes (state_of (onmessage ?dec 1 interruptedMessage ?st))
           = stopAll (sourcesRef ?st) (nodes ?st)"
    using a by (simp add: onmessage_def afterText_def handleToolCall_def handleTranscription_def
        handleText_def handleAudio_def handleInterruption_playback interruptedMessage_def)
  have "nodes (state_of (onmessage ?dec 1 interruptedMessage ?st))
          = [\<lparr>startAt = 0, duration = 2, status = Stopped\<rparr>]"
    by (subst k, subst st, subst st)
       (simp add: initial_def stopAll_def stopNode_def enumerate_eq_zip upt_rec)
  then show ?thesis using r by simp
qed

section \<open>The outbound producers and the channel\<close>

text \<open>
  C6. In the component with the task tool, while the channel is not open
  (\<open>isConnectedRef\<close> is false), a frame offered by the audio callback or by the video timer
  is dropped: the whole state is unchanged, so nothing is handed to the session and
  nothing is queued on the session promise. A continuation that was attached while the
  channel was open and runs after it has closed drops its frame as well. No call on the
  session is made, so nothing can be thrown, and the handlers return at once.
\<close>

theorem send_dropped_when_not_open:
  assumes "\<not> isConnectedRef st"
  shows "onaudioprocess enc inputData st = st
       \<and> videoInterval c st = st
       \<and> runCallback (SendIfConnected mimeType d) st = st"
  using assms by (simp add: onaudioprocess_def videoInterval_def)

theorem send_dropped_when_not_open_witness:
  "onaudioprocess lengthEncode [0, 1] initial = initial
   \<and> videoInterval \<lparr>videoEl = True, canvasEl = True, ctx2d = True, base64Image = ''AAAA''\<rparr> (onclose live)
       = onclose live
   \<and> outbox (runCallback (SendIfConnected ''image/jpeg'' ''AAAA'') (onclose live)) = []"
  using send_dropped_when_not_open [of initial lengthEncode "[0, 1]"]
    send_dropped_when_not_open [of "onclose live" lengthEncode "[0, 1]"
      "\<lparr>videoEl = True, canvasEl = True, ctx2d = True, base64Image = ''AAAA''\<rparr>"
      "''image/jpeg''" "''AAAA''"]
  by (simp add: initial_def onclose_def)

text \<open>
  C4, as the claim states it, would have the volume meter follow the input while the
  microphone is muted. It does not: a muted callback leaves the meter at its last value,
  in both components.
\<close>

theorem muted_meter_counterexample:
  "volume (onaudioprocess lengthEncode [1] (setIsMicOn False live)) \<noteq> rms [1]
   \<and> volume (onaudioprocess_plain lengthEncode [1] (setIsMicOn False live)) \<noteq> rms [1]"
  by (simp add: onaudioprocess_def onaudioprocess_plain_def setIsMicOn_def rms_def)

text \<open>
  C4, amended. While the microphone is muted the audio callback returns at once: the
  state is unchanged, so no frame is sent or queued and the volume meter keeps its last
  value. On the first tick after unmuting the callback measures the buffer again (the
  meter is set to its level while the component is mounted) and passes the frame to the
  session promise: the frame is sent at once when the promise is fulfilled, waits for
  the fulfilment while it is pending, and is dropped when it is rejected (or when the
  plain component holds no promise). In the
  component with the task tool all of this needs the channel to be connected; while it
  is not, the tick changes nothing but the flag that unmuting has set.
\<close>

theorem muted_drops_frames_and_meter:
  assumes "\<not> isMicOnRef st"
    and "measured = st\<lparr>isMicOnRef := True,
                        volume := (if isMounted st then rms inputData else volume st)\<rparr>"
  shows "onaudioprocess enc inputData st = st
       \<and> onaudioprocess_plain enc inputData st = st
       \<and> (\<not> isConnectedRef st \<longrightarrow>
            onaudioprocess enc inputData (setIsMicOn True st) = st\<lparr>isMicOnRef := True\<rparr>)
       \<and> (isConnectedRef st \<and> sessionPromise st = Fulfilled \<longrightarrow>
            onaudioprocess enc inputData (setIsMicOn True st)
              = measured\<lparr>outbox := outbox st
                                @ [RealtimeInput ''audio/pcm;rate=16000'' (enc inputData)]\<rparr>)
       \<and> (isConnectedRef st \<and> sessionPromise st = Pending \<longrightarrow>
            onaudioprocess enc inputData (setIsMicOn True st)
              = measured\<lparr>callbacks := callbacks st
                                @ [SendIfConnected ''audio/pcm;rate=16000'' (enc inputData)]\<rparr>)
       \<and> (isConnectedRef st \<and> sessionPromise st = Rejected \<longrightarrow>
            onaudioprocess enc inputData (setIsMicOn True st) = measured)
       \<and> (sessionPromiseRef st \<and> sessionPromise st = Fulfilled \<longrightarrow>
            onaudioprocess_plain enc inputData (setIsMicOn True st)
              = measured\<lparr>outbox := outbox st
                                @ [RealtimeInput ''audio/pcm;rate=16000'' (enc inputData)]\<rparr>)
       \<and> (sessionPromiseRef st \<and> sessionPromise st = Pending \<longrightarrow>
            onaudioprocess_plain enc inputData (setIsMicOn True st)
              = measured\<lparr>callbacks := callbacks st
                                @ [SendAlways ''audio/pcm;rate=16000'' (enc inputData)]\<rparr>)
       \<and> (\<not> sessionPromiseRef st \<or> sessionPromise st = Rejected \<longrightarrow>
            onaudioprocess_plain enc inputData (setIsMicOn True st) = measured)"
proof -
  have 1: "onaudioprocess enc inputData st = st \<and> onaudioprocess_plain enc inputData st = st"
    using assms(1) by (simp add: onaudioprocess_def onaudioprocess_plain_def)
  have 2: "\<not> isConnectedRef st \<longrightarrow>
            onaudioprocess enc inputData (setIsMicOn True st) = st\<lparr>isMicOnRef := True\<rparr>"
    by (simp add: onaudioprocess_def setIsMicOn_def)
  have 3: "isConnectedRef st \<and> sessionPromise st = Fulfilled \<longrightarrow>
            onaudioprocess enc inputData (setIsMicOn True st)
              = measured\<lparr>outbox := outbox st
                                @ [RealtimeInput ''audio/pcm;rate=16000'' (enc inputData)]\<rparr>"
    by (simp add: assms(2) onaudioprocess_def setIsMicOn_def thenSession_def Let_def)
  have 4: "isConnectedRef st \<and> sessionPromise st = Pending \<longrightarrow>
            onaudioprocess enc inputData (setIsMicOn True st)
              = measured\<lparr>callbacks := callbacks st
                                @ [SendIfConnected ''audio/pcm;rate=16000'' (enc inputData)]\<rparr>"
    by (simp add: assms(2) onaudioprocess_def setIsMicOn_def thenSession_def Let_def)
  have 5: "isConnectedRef st \<and> sessionPromise st = Rejected \<longrightarrow>
            onaudioprocess enc inputData (setIsMicOn True st) = measured"
    by (simp add: assms(2) onaudioprocess_def setIsMicOn_def thenSession_def Let_def)
  have 6: "sessionPromiseRef st \<and> sessionPromise st = Fulfilled \<longrightarrow>
            onaudioprocess_plain enc inputData (setIsMicOn True st)
              = measured\<lparr>outbox := outbox st
                                @ [RealtimeInput ''audio/pcm;rate=16000'' (enc inputData)]\<rparr>"
    by (simp add: assms(2) onaudioprocess_plain_def setIsMicOn_def thenSession_def Let_def)
  have 7: "sessionPromiseRef st \<and> sessionPromise st = Pending \<longrightarrow>
            onaudioprocess_plain enc inputData (setIsMicOn True st)
              = measured\<lparr>callbacks := callbacks st
                                @ [SendAlways ''audio/pcm;rate=16000'' (enc inputData)]\<rparr>"
    by (simp add: assms(2) onaudioprocess_plain_def setIsMicOn_def thenSession_def Let_def)
  have 8: "\<not> sessionPromiseRef st \<or> sessionPromise st = Rejected \<longrightarrow>
            onaudioprocess_plain enc inputData (setIsMicOn True st) = measured"
    by (auto simp: assms(2) onaudioprocess_plain_def setIsMicOn_def thenSession_def Let_def)
  show ?thesis using 1 2 3 4 5 6 7 8 by (intro conjI) simp_all
qed

theorem muted_drops_frames_and_meter_witness:
  "onaudioprocess lengthEncode [1] (setIsMicOn False live) = setIsMicOn False live
   \<and> outbox (onaudioprocess lengthEncode [1] (setIsMicOn True (setIsMicOn False live)))
       = [RealtimeInput ''audio/pcm;rate=16000'' ''A'']
   \<and> volume (onaudioprocess lengthEncode [1] (setIsMicOn True (setIsMicOn False live))) = 1
   \<and> callbacks (onaudioprocess_plain lengthEncode [1] (setIsMicOn True (setIsMicOn False initial)))
       = [SendAlways ''audio/pcm;rate=16000'' ''A'']"
  using muted_drops_frames_and_meter [of "setIsMicOn False live" _ "[1]" lengthEncode, OF _ refl]
        muted_drops_frames_and_meter [of "setIsMicOn False initial" _ "[1]" lengthEncode, OF _ refl]
  by (simp add: setIsMicOn_def lengthEncode_def rms_def initial_def)

section \<open>The task tool\<close>

text \<open>
  C5, as the claim states it, fails in two ways. A title that is supplied as the empty
  string is not kept: the task gets the default "Coding Task". And only the first
  function call of a message is handled: a second call of the tool in the same message
  sets no task and gets no tool response.
\<close>

theorem assign_task_counterexample:
  "currentTask (state_of (onmessage (constDecode 1) 0
       (toolMessage [assignCall ''call-1'' '''' ''Reverse a list.'']) live))
     = Some \<lparr>title = ''Coding Task'', description = ''Reverse a list.''\<rparr>
   \<and> currentTask (state_of (onmessage (constDecode 1) 0
       (toolMessage [assignCall ''call-1'' '''' ''Reverse a list.'']) live))
     \<noteq> Some \<lparr>title = '''', description = ''Reverse a list.''\<rparr>
   \<and> outbox (state_of (onmessage (constDecode 1) 0
       (toolMessage [assignCall ''call-1'' ''Reverse a List'' ''Reverse a list.'',
                     assignCall ''call-2'' ''Two Sum'' ''Find two numbers.'']) live))
     = [ToolResponse (Some ''call-1'') (Some ''assignCodingTask'')
          ''Task assigned and displayed to candidate.'']
   \<and> currentTask (state_of (onmessage (constDecode 1) 0
       (toolMessage [assignCall ''call-1'' ''Reverse a List'' ''Reverse a list.'',
                     assignCall ''call-2'' ''Two Sum'' ''Find two numbers.'']) live))
     = Some \<lparr>title = ''Reverse a List'', description = ''Reverse a list.''\<rparr>"
  by (simp add: currentTask_onmessage currentTask_handleToolCall outbox_onmessage outbox_handleToolCall
      toolMessage_def assignCall_def js_or_opt_def js_or_def truthy_def)

text \<open>
  C5, amended. When a message whose first function call names \<open>assignCodingTask\<close> is
  received on an open session, the task is set to the title and the description of that
  call, where a missing or empty title is replaced by "Coding Task" and a missing or
  empty description by "Solve the problem."; so a non-empty title and a non-empty
  description are kept exactly. Exactly one tool response, with the id and the name of
  that call, is handed to the session, and nothing is left waiting. From then on no
  event removes the task, and it changes only by a message whose first call names the
  tool.
\<close>

theorem assign_task_tool_call:
  assumes "sessionOpen st"
    and "toolCall m = Some (call # rest)"
    and "name call = Some ''assignCodingTask''"
    and "st' = state_of (onmessage dec now m st)"
  shows "currentTask st' =
           Some \<lparr>title = (case arg_title (call_args call) of
                            None \<Rightarrow> ''Coding Task''
                          | Some s \<Rightarrow> if s = [] then ''Coding Task'' else s),
                 description = (case arg_description (call_args call) of
                                  None \<Rightarrow> ''Solve the problem.''
                                | Some s \<Rightarrow> if s = [] then ''Solve the problem.'' else s)\<rparr>
       \<and> (arg_title (call_args call) = Some t \<and> t \<noteq> []
            \<and> arg_description (call_args call) = Some d \<and> d \<noteq> [] \<longrightarrow>
            currentTask st' = Some \<lparr>title = t, description = d\<rparr>)
       \<and> outbox st' = outbox st @ [ToolResponse (call_id call) (name call)
                                     ''Task assigned and displayed to candidate.'']
       \<and> callbacks st' = callbacks st
       \<and> (\<forall>evs. currentTask (steps dec enc evs st') \<noteq> None
             \<and> ((\<forall>ev \<in> set evs. \<not> assignsTask ev) \<longrightarrow>
                  currentTask (steps dec enc evs st') = currentTask st'))"
proof -
  have o: "isMounted st" "isConnectedRef st" "sessionPromiseRef st" "sessionPromise st = Fulfilled"
    using assms(1) by (simp_all add: sessionOpen_def)
  have 1: "currentTask st' =
           Some \<lparr>title = (case arg_title (call_args call) of
                            None \<Rightarrow> ''Coding Task''
                          | Some s \<Rightarrow> if s = [] then ''Coding Task'' else s),
                 description = (case arg_description (call_args call) of
                                  None \<Rightarrow> ''Solve the problem.''
                                | Some s \<Rightarrow> if s = [] then ''Solve the problem.'' else s)\<rparr>"
    using assms(2,3) o(1)
    by (simp add: assms(4) currentTask_onmessage currentTask_handleToolCall js_or_opt_cases)
  have 2: "currentTask st' = Some \<lparr>title = t, description = d\<rparr>"
    if "arg_title (call_args call) = Some t \<and> t \<noteq> []
            \<and> arg_description (call_args call) = Some d \<and> d \<noteq> []"
    using that by (simp add: 1)
  have 3: "outbox st' = outbox st @ [ToolResponse (call_id call) (name call)
                                     ''Task assigned and displayed to candidate.'']"
    using assms(2,3) o by (simp add: assms(4) outbox_onmessage outbox_handleToolCall)
  have 4: "callbacks st' = callbacks st"
    using o by (simp add: assms(4) callbacks_onmessage callbacks_handleToolCall_open)
  have 5: "currentTask (steps dec enc evs st') \<noteq> None" for evs
    by (rule currentTask_steps_kept) (simp add: 1)
  have 6: "currentTask (steps dec enc evs st') = currentTask st'"
    if "\<forall>ev \<in> set evs. \<not> assignsTask ev" for evs
    by (rule currentTask_steps_same [OF that])
  show ?thesis using 1 2 3 4 5 6 by blast
qed

theorem assign_task_tool_call_witness:
  "sessionOpen live
   \<and> currentTask (state_of (onmessage (constDecode 1) 0
       (toolMessage [assignCall ''call-1'' ''Reverse a List'' ''Reverse a list.'']) live))
     = Some \<lparr>title = ''Reverse a List'', description = ''Reverse a list.''\<rparr>
   \<and> outbox (state_of (onmessage (constDecode 1) 0
       (toolMessage [assignCall ''call-1'' ''Reverse a List'' ''Reverse a list.'']) live))
     = [ToolResponse (Some ''call-1'') (Some ''assignCodingTask'')
          ''Task assigned and displayed to candidate.'']
   \<and> currentTask (state_of (onmessage (constDecode 1) 0
       (toolMessage [assignCall ''call-2'' '''' '''']) live))
     = Some \<lparr>title = ''Coding Task'', description = ''Solve the problem.''\<rparr>"
proof -
  note A = assign_task_tool_call [where st = live
      and m = "toolMessage [assignCall ''call-1'' ''Reverse a List'' ''Reverse a list.'']"
      and call = "assignCall ''call-1'' ''Reverse a List'' ''Reverse a list.''" and rest = "[]"
      and dec = "constDecode 1" and now = 0 and enc = lengthEncode
      and t = "''Reverse a List''" and d = "''Reverse a list.''", OF sessionOpen_live _ _ refl]
  note B = assign_task_tool_call [where st = live
      and m = "toolMessage [assignCall ''call-2'' '''' '''']"
      and call = "assignCall ''call-2'' '''' ''''" and rest = "[]"
      and dec = "constDecode 1" and now = 0 and enc = lengthEncode
      and t = "[]" and d = "[]", OF sessionOpen_live _ _ refl]
  have a: "toolCall (toolMessage cs) = Some cs" for cs by (simp add: toolMessage_def)
  have n: "name (assignCall i t d) = Some ''assignCodingTask''" for i t d
    by (simp add: assignCall_def)
  have 1: "currentTask (state_of (onmessage (constDecode 1) 0
       (toolMessage [assignCall ''call-1'' ''Reverse a List'' ''Reverse a list.'']) live))
     = Some \<lparr>title = ''Reverse a List'', description = ''Reverse a list.''\<rparr>"
    using A [OF a n, THEN conjunct1] by (simp add: assignCall_def)
  have 2: "outbox (state_of (onmessage (constDecode 1) 0
       (toolMessage [assignCall ''call-1'' ''Reverse a List'' ''Reverse a list.'']) live))
     = [ToolResponse (Some ''call-1'') (Some ''assignCodingTask'')
          ''Task assigned and displayed to candidate.'']"
    using A [OF a n, THEN conjunct2, THEN conjunct2, THEN conjunct1] by (simp add: assignCall_def)
  have 3: "currentTask (state_of (onmessage (constDecode 1) 0
       (toolMessage [assignCall ''call-2'' '''' '''']) live))
     = Some \<lparr>title = ''Coding Task'', description = ''Solve the problem.''\<rparr>"
    using B [OF a n, THEN conjunct1] by (simp add: assignCall_def)
  show ?thesis using 1 2 3 sessionOpen_live by simp
qed

section \<open>Teardown\<close>

text \<open>
  C7. In \<open>components/LiveInterview.tsx\<close> the continuation that sends an audio frame has no
  liveness check: when the audio callback runs while the session promise is pending, the
  effect is torn down, and the promise is fulfilled afterwards, the frame is sent after
  the teardown, before the session is closed.
\<close>

theorem plain_component_sends_after_teardown:
  "\<not> isMounted (cleanup_plain (onaudioprocess_plain lengthEncode [0, 0] initial))
   \<and> outbox (cleanup_plain (onaudioprocess_plain lengthEncode [0, 0] initial)) = []
   \<and> outbox (sessionResolved (cleanup_plain (onaudioprocess_plain lengthEncode [0, 0] initial)))
       = [RealtimeInput ''audio/pcm;rate=16000'' ''AA'', SessionClose]"
  by (simp add: onaudioprocess_plain_def cleanup_plain_def sessionResolved_def thenSession_def
      runCallbacks_def initial_def lengthEncode_def Let_def)

section \<open>The transcript accumulator\<close>

text \<open>
  C3. For every sequence of non-empty partial transcripts handled by a mounted component,
  the chat history is the one the specification's accumulator gives: each delta is merged
  into the last entry when that entry has the delta's role, and opens a new entry
  otherwise. The entries that exist keep their position and role and their text only
  grows. The deltas "Hi" and " there" of the interviewer give the single entry "Hi there".
  This holds for the handler of both components.
\<close>

theorem transcript_merges_deltas:
  assumes "h = onmessage dec \<or> h = onmessage_plain dec"
    and "isMounted st"
    and "\<forall>(now, r, d) \<in> set ds. d \<noteq> []"
  shows "chatHistory (run h (deltas ds) st) = spec_transcript (chatHistory st) ds
       \<and> extends (chatHistory st) (chatHistory (run h (deltas ds) st))
       \<and> chatHistory (run h (deltas [(t1, ai, ''Hi''), (t2, ai, '' there'')]) initial)
           = [\<lparr>role = ai, text' = ''Hi there''\<rparr>]"
proof (intro conjI)
  show "chatHistory (run h (deltas ds) st) = spec_transcript (chatHistory st) ds"
    by (rule run_deltas [OF assms])
  show "extends (chatHistory st) (chatHistory (run h (deltas ds) st))"
    by (rule extends_run [OF assms(1)])
  have i: "isMounted initial" by (simp add: initial_def)
  have "chatHistory (run h (deltas [(t1, ai, ''Hi''), (t2, ai, '' there'')]) initial)
          = spec_transcript (chatHistory initial) [(t1, ai, ''Hi''), (t2, ai, '' there'')]"
    by (rule run_deltas [OF assms(1) i]) simp
  then show "chatHistory (run h (deltas [(t1, ai, ''Hi''), (t2, ai, '' there'')]) initial)
           = [\<lparr>role = ai, text' = ''Hi there''\<rparr>]"
    by (simp add: initial_def)
qed

theorem transcript_merges_deltas_witness:
  "isMounted initial
   \<and> chatHistory (run (onmessage (\<lambda>b. None))
        (deltas [(0, ai, ''Hi''), (1, ai, '' there''), (2, user, ''Hello'')]) initial)
       = [\<lparr>role = ai, text' = ''Hi there''\<rparr>, \<lparr>role = user, text' = ''Hello''\<rparr>]"
  using transcript_merges_deltas [of "onmessage (\<lambda>b. None)" "\<lambda>b. None" initial
          "[(0, ai, ''Hi''), (1, ai, '' there''), (2, user, ''Hello'')]" 0 1]
  by (simp add: initial_def)

text \<open>
  C9. A message whose partial transcripts are empty strings (or absent) leaves the chat
  history as it is: no entry is added and no text changes, whatever else the message
  carries and for both components.
\<close>

theorem empty_delta_noop:
  assumes "h = onmessage dec \<or> h = onmessage_plain dec"
    and "outputTranscription m = None \<or> outputTranscription m = Some []"
    and "inputTranscription m = None \<or> inputTranscription m = Some []"
  shows "chatHistory (state_of (h now m st)) = chatHistory st"
  using assms(2,3)
  by (auto simp: handler_chatHistory [OF assms(1)] handleTranscription_def handleText_def truthy_def)

theorem empty_delta_noop_witness:
  "chatHistory (state_of (onmessage_plain (\<lambda>b. None) 5 (delta user [])
       (initial\<lparr>chatHistory := [\<lparr>role = ai, text' = ''Hi''\<rparr>]\<rparr>)))
     = [\<lparr>role = ai, text' = ''Hi''\<rparr>]"
  using empty_delta_noop [of "onmessage_plain (\<lambda>b. None)" "\<lambda>b. None" "delta user []" 5
          "initial\<lparr>chatHistory := [\<lparr>role = ai, text' = ''Hi''\<rparr>]\<rparr>"]
  by (simp add: delta_def)

section \<open>The end of the call\<close>

text \<open>
  C10. When the call is ended, \<open>onEndInterview\<close> receives the sentinel
  "No transcript available." if the accumulated transcript is the empty string, and the
  accumulated transcript unchanged otherwise.
\<close>

theorem handleEndCall_sentinel:
  "(transcriptRef st = [] \<longrightarrow> handleEndCall st = ''No transcript available.'')
   \<and> (transcriptRef st \<noteq> [] \<longrightarrow> handleEndCall st = transcriptRef st)"
  by (simp add: handleEndCall_def js_or_def truthy_def)

theorem handleEndCall_sentinel_witness:
  "handleEndCall initial = ''No transcript available.''
   \<and> handleEndCall (initial\<lparr>transcriptRef := ''Hi there''\<rparr>) = ''Hi there''"
  using handleEndCall_sentinel [of initial]
        handleEndCall_sentinel [of "initial\<lparr>transcriptRef := ''Hi there''\<rparr>"]
  by (simp add: initial_def)

section \<open>The report generator\<close>

text \<open>
  C8, as the claim states it, would have the generator extract the outermost balanced
  object. It takes the text from the first opening brace to the last closing brace
  instead: when a note with braces follows the object, the text that is parsed is not
  the object.
\<close>

theorem clean_json_counterexample:
  "spec_outermostObject (sampleObject @ '' (scale: {0-100})'') = Some sampleObject
   \<and> cleanJson (sampleObject @ '' (scale: {0-100})'') = sampleObject @ '' (scale: {0-100}''
   \<and> cleanJson (sampleObject @ '' (scale: {0-100})'') \<noteq> sampleObject"
  by (simp add: sampleObject_def spec_outermostObject_def cleanJson_def lastIndexOf_def
      substring_def Let_def)

text \<open>
  C8, amended. In the application with sign-in, an empty response and a response whose
  cleaned text does not parse are recoverable errors: the state stays at the analysis
  step with the fixed message, the error panel is shown, and its button leads to the
  setup step; a cleaned text that parses becomes the report. The cleaning deletes the
  markers of a code fence (a fenced text without an opening brace is given to the parser
  without its fence) and takes the text from the first opening brace to the last closing
  brace, which is the object whenever no opening brace comes before it, no closing brace
  comes after it and it holds no backtick. In \<open>App.tsx\<close> a non-empty response that does
  not parse is answered by an alert and the setup step, and no report is set or shown.
\<close>

theorem report_generation_recovers:
  assumes "profile st \<noteq> None" and "truthy apiKey"
  shows "(\<not> truthy_opt t \<longrightarrow>
            recoverableError emptyResponseMessage st (generateReport apiKey (Text t) parse st))
       \<and> (truthy s \<and> parse (cleanJson s) = None \<longrightarrow>
            recoverableError parseFailedMessage st (generateReport apiKey (Text (Some s)) parse st))
       \<and> (truthy s \<and> parse (cleanJson s) = Some r \<longrightarrow>
            generateReport apiKey (Text (Some s)) parse st
              = st\<lparr>appState := REPORT, generationError := None, report := Some r\<rparr>)
       \<and> (CHR ''{'' \<notin> set pre \<and> CHR ''}'' \<notin> set suf \<and> CHR 0x60 \<notin> set mid \<longrightarrow>
            cleanJson (pre @ CHR ''{'' # mid @ CHR ''}'' # suf) = CHR ''{'' # mid @ ''}'')
       \<and> (list_all isSpace lead \<and> list_all isSpace trail \<and> CHR 0x60 \<notin> set body
            \<and> CHR ''{'' \<notin> set body \<and> (body = [] \<or> \<not> isSpace (hd body)) \<longrightarrow>
            cleanJson (''```json'' @ lead @ body @ ''```'' @ trail) = body)
       \<and> (truthy s \<and> parse s = None \<longrightarrow>
            generateReport_plain apiKey (Text (Some s)) parse st
              = st\<lparr>appState := SETUP, alerts := alerts st @ [failedAlert]\<rparr>
            \<and> render (generateReport_plain apiKey (Text (Some s)) parse st) = Page SETUP)"
proof -
  have e1: "evaluate apiKey (Text t) parse = Inl emptyResponseMessage" if "\<not> truthy_opt t"
    using that assms(2) by (auto simp: evaluate_def truthy_opt_def split: option.splits)
  have 1: "\<not> truthy_opt t \<longrightarrow>
            recoverableError emptyResponseMessage st (generateReport apiKey (Text t) parse st)"
  proof
    assume a: "\<not> truthy_opt t"
    show "recoverableError emptyResponseMessage st (generateReport apiKey (Text t) parse st)"
      unfolding generateReport_error [OF assms(1) e1 [OF a]]
      by (rule recoverableError_intro [OF messages_truthy(1)])
  qed
  have e2: "evaluate apiKey (Text (Some s)) parse = Inl parseFailedMessage"
    if "truthy s \<and> parse (cleanJson s) = None"
    using that assms(2) by (simp add: evaluate_def)
  have 2: "truthy s \<and> parse (cleanJson s) = None \<longrightarrow>
            recoverableError parseFailedMessage st (generateReport apiKey (Text (Some s)) parse st)"
  proof
    assume a: "truthy s \<and> parse (cleanJson s) = None"
    show "recoverableError parseFailedMessage st (generateReport apiKey (Text (Some s)) parse st)"
      unfolding generateReport_error [OF assms(1) e2 [OF a]]
      by (rule recoverableError_intro [OF messages_truthy(2)])
  qed
  have 3: "truthy s \<and> parse (cleanJson s) = Some r \<longrightarrow>
            generateReport apiKey (Text (Some s)) parse st
              = st\<lparr>appState := REPORT, generationError := None, report := Some r\<rparr>"
    using generateReport_success [OF assms] by blast
  have 4: "CHR ''{'' \<notin> set pre \<and> CHR ''}'' \<notin> set suf \<and> CHR 0x60 \<notin> set mid \<longrightarrow>
            cleanJson (pre @ CHR ''{'' # mid @ CHR ''}'' # suf) = CHR ''{'' # mid @ ''}''"
    using cleanJson_wrapped by blast
  have 5: "list_all isSpace lead \<and> list_all isSpace trail \<and> CHR 0x60 \<notin> set body
            \<and> CHR ''{'' \<notin> set body \<and> (body = [] \<or> \<not> isSpace (hd body)) \<longrightarrow>
            cleanJson (''```json'' @ lead @ body @ ''```'' @ trail) = body"
    using cleanJson_fenced by blast
  have 6: "truthy s \<and> parse s = None \<longrightarrow>
            generateReport_plain apiKey (Text (Some s)) parse st
              = st\<lparr>appState := SETUP, alerts := alerts st @ [failedAlert]\<rparr>
            \<and> render (generateReport_plain apiKey (Text (Some s)) parse st) = Page SETUP"
  proof
    assume a: "truthy s \<and> parse s = None"
    have g: "generateReport_plain apiKey (Text (Some s)) parse st
              = st\<lparr>appState := SETUP, alerts := alerts st @ [failedAlert]\<rparr>"
      using a generateReport_plain_failure [OF assms, of s parse] by simp
    have "render (st\<lparr>appState := SETUP, alerts := alerts st @ [failedAlert]\<rparr>) = Page SETUP"
      by (simp add: render_def)
    then show "generateReport_plain apiKey (Text (Some s)) parse st
              = st\<lparr>appState := SETUP, alerts := alerts st @ [failedAlert]\<rparr>
            \<and> render (generateReport_plain apiKey (Text (Some s)) parse st) = Page SETUP"
      using g by simp
  qed
  show ?thesis by (intro conjI; fact)
qed

theorem report_generation_recovers_witness:
  "generateReport ''key'' (Text (Some ''Sorry, no report.'')) (parseExactly ''{}'' (Object [])) interviewDone
     = interviewDone\<lparr>appState := ANALYZING, generationError := Some parseFailedMessage\<rparr>
   \<and> generateReport ''key'' (Text None) (parseExactly ''{}'' (Object [])) interviewDone
     = interviewDone\<lparr>appState := ANALYZING, generationError := Some emptyResponseMessage\<rparr>
   \<and> cleanJson (''```json'' @ [CHR 0x0A] @ sampleObject @ [CHR 0x0A] @ ''```'') = sampleObject
   \<and> generateReport_plain ''key'' (Text (Some ''Sorry, no report.'')) (parseExactly ''{}'' (Object []))
        interviewDone
     = interviewDone\<lparr>appState := SETUP, alerts := [failedAlert]\<rparr>"
proof -
  have c: "cleanJson ''Sorry, no report.'' = ''Sorry, no report.''"
    by (simp add: cleanJson_def lastIndexOf_def Let_def)
  have h1: "profile interviewDone \<noteq> None" by (simp add: interviewDone_def)
  have h2: "truthy ''key''" by (simp add: truthy_def)
  note T = report_generation_recovers [where t = None and s = "''Sorry, no report.''"
      and parse = "parseExactly ''{}'' (Object [])" and r = Null
      and pre = "''```json'' @ [CHR 0x0A]" and mid = "[CHR 0x22] @ ''score'' @ [CHR 0x22] @ '': 90''"
      and suf = "[CHR 0x0A] @ ''```''" and lead = "[]" and trail = "[]" and body = "[]", OF h1 h2]
  have p: "truthy ''Sorry, no report.''
           \<and> parseExactly ''{}'' (Object []) (cleanJson ''Sorry, no report.'') = None"
    by (simp add: truthy_def c parseExactly_def)
  have q: "truthy ''Sorry, no report.'' \<and> parseExactly ''{}'' (Object []) ''Sorry, no report.'' = None"
    by (simp add: truthy_def parseExactly_def)
  have 1: "recoverableError parseFailedMessage interviewDone
             (generateReport ''key'' (Text (Some ''Sorry, no report.''))
                (parseExactly ''{}'' (Object [])) interviewDone)"
    using T [THEN conjunct2, THEN conjunct1] p by blast
  have 2: "recoverableError emptyResponseMessage interviewDone
             (generateReport ''key'' (Text None) (parseExactly ''{}'' (Object [])) interviewDone)"
    using T [THEN conjunct1] by (simp add: truthy_opt_def)
  have 3: "cleanJson (''```json'' @ [CHR 0x0A] @ sampleObject @ [CHR 0x0A] @ ''```'') = sampleObject"
    using T [THEN conjunct2, THEN conjunct2, THEN conjunct2, THEN conjunct1]
    by (simp add: sampleObject_def)
  have 4: "generateReport_plain ''key'' (Text (Some ''Sorry, no report.''))
             (parseExactly ''{}'' (Object [])) interviewDone
           = interviewDone\<lparr>appState := SETUP, alerts := [failedAlert]\<rparr>"
    using T [THEN conjunct2, THEN conjunct2, THEN conjunct2, THEN conjunct2, THEN conjunct2] q
    by (simp add: interviewDone_def)
  show ?thesis using 1 2 3 4 by (simp add: recoverableError_def)
qed

end
